theory Spec2Isabelle
  imports Complex_Main "HOL-Library.Multiset"
begin

section \<open>Strings, numbers and the browser\<close>

text \<open>
  JavaScript strings are modelled as \<open>string\<close>, read as the UTF-8 text of the
  JavaScript string: every character the code tests for or emits is ASCII (the white
  space that \<open>parseInt\<close> skips apart, which is given by its UTF-8 bytes), and a
  substring or a replacement of ASCII text is the same on UTF-8 bytes as on UTF-16 code
  units. Prices are \<open>rat\<close>: every finite double is a rational, and on finite
  doubles \<open>a > b\<close> and the sign of \<open>a - b\<close> are those of the exact values.
  Identifiers are integers; a number read from a text is rounded to the nearest double.
  The elements that the pages look up by id are taken to be there.
\<close>

abbreviation dquote :: char where "dquote \<equiv> CHR 0x22"
abbreviation squote :: char where "squote \<equiv> CHR 0x27"

text \<open>\<open>String.prototype.includes\<close>: the argument occurs as a contiguous run.\<close>

fun includes_js :: "string \<Rightarrow> string \<Rightarrow> bool" where
  "includes_js [] q = (q = [])"
| "includes_js (c # cs) q = (take (length q) (c # cs) = q \<or> includes_js cs q)"

text \<open>
  \<open>String.prototype.replace\<close> with a global regular expression that is a literal
  text: scan from the left, replace each occurrence, continue after it.
\<close>

function replaceAll :: "string \<Rightarrow> string \<Rightarrow> string \<Rightarrow> string" where
  "replaceAll pat rep [] = []"
| "replaceAll pat rep (c # cs) =
     (if pat \<noteq> [] \<and> take (length pat) (c # cs) = pat
      then rep @ replaceAll pat rep (drop (length pat) (c # cs))
      else c # replaceAll pat rep cs)"
  by pat_completeness auto
termination
  by (relation "measure (\<lambda>(pat, rep, s). length s)") auto

text \<open>The decimal digits of a natural number.\<close>

definition digit_char :: "nat \<Rightarrow> char" where
  "digit_char d = char_of (48 + d)"

function digits :: "nat \<Rightarrow> string" where
  "digits n = (if n < 10 then [digit_char n] else digits (n div 10) @ [digit_char (n mod 10)])"
  by pat_completeness auto
termination
  by (relation "measure (\<lambda>n. n)") auto

declare digits.simps [simp del]

text \<open>
  The numbers that \<open>parseInt\<close> gives: not a number, an integer that is a double, or an
  infinity.
\<close>

datatype number = NaN | Num int | PosInfinity | NegInfinity

text \<open>
  What the browser provides and the repository does not define. \<open>decodeURIComponent\<close> and
  \<open>encodeURIComponent\<close> give \<open>None\<close> where the browser throws \<open>URIError\<close>;
  \<open>imageLoads\<close> tells whether an image element given the URL fires \<open>onload\<close> (rather
  than \<open>onerror\<close>); \<open>pathname\<close> is \<open>window.location.pathname\<close>; \<open>largeNumberText\<close> is
  the text of an integer above \<open>2^53\<close> (the shortest digits that read back as the same
  double, in exponent notation from \<open>10^21\<close>).
\<close>

record host =
  toLowerCase :: "string \<Rightarrow> string"
  localeCompare :: "string \<Rightarrow> string \<Rightarrow> int"
  trim :: "string \<Rightarrow> string"
  decodeURIComponent :: "string \<Rightarrow> string option"
  encodeURIComponent :: "string \<Rightarrow> string option"
  toFixed2 :: "rat \<Rightarrow> string"
  imageLoads :: "string \<Rightarrow> bool"
  pathname :: string
  largeNumberText :: "nat \<Rightarrow> string"

text \<open>Number to string: up to \<open>2^53\<close> an integer is written with all its digits.\<close>

definition toString :: "host \<Rightarrow> number \<Rightarrow> string" where
  "toString h x =
     (case x of
        NaN \<Rightarrow> ''NaN''
      | PosInfinity \<Rightarrow> ''Infinity''
      | NegInfinity \<Rightarrow> ''-Infinity''
      | Num n \<Rightarrow> (if n < 0 then ''-'' else []) @
                 (if nat \<bar>n\<bar> \<le> 2 ^ 53 then digits (nat \<bar>n\<bar>)
                  else largeNumberText h (nat \<bar>n\<bar>)))"

text \<open>
  The length in bytes of a white space or line terminator of ECMAScript at the head of a
  text: the ASCII ones, U+00A0, U+1680, U+2000 to U+200A, U+2028, U+2029, U+202F,
  U+205F, U+3000 and U+FEFF; 0 when the text starts with none.
\<close>

definition whiteSpaceLength :: "string \<Rightarrow> nat" where
  "whiteSpaceLength s =
     (case map of_char (take 3 s) :: nat list of
        [] \<Rightarrow> 0
      | x # r \<Rightarrow>
          if x \<in> {0x09, 0x0A, 0x0B, 0x0C, 0x0D, 0x20} then 1
          else (case r of
                  [] \<Rightarrow> 0
                | y # r' \<Rightarrow>
                    if x = 0xC2 \<and> y = 0xA0 then 2
                    else (case r' of
                            [] \<Rightarrow> 0
                          | z # _ \<Rightarrow>
                              if (x = 0xE1 \<and> y = 0x9A \<and> z = 0x80) \<or>
                                 (x = 0xE2 \<and> y = 0x80 \<and>
                                    ((0x80 \<le> z \<and> z \<le> 0x8A) \<or> z = 0xA8 \<or> z = 0xA9 \<or> z = 0xAF)) \<or>
                                 (x = 0xE2 \<and> y = 0x81 \<and> z = 0x9F) \<or>
                                 (x = 0xE3 \<and> y = 0x80 \<and> z = 0x80) \<or>
                                 (x = 0xEF \<and> y = 0xBB \<and> z = 0xBF)
                              then 3 else 0)))"

function skipWhiteSpace :: "string \<Rightarrow> string" where
  "skipWhiteSpace s =
     (if whiteSpaceLength s = 0 then s else skipWhiteSpace (drop (whiteSpaceLength s) s))"
  by pat_completeness auto
termination
proof (relation "measure length")
  show "wf (measure length)" by simp
next
  fix s :: string
  assume "whiteSpaceLength s \<noteq> 0"
  moreover have "whiteSpaceLength s \<le> length s"
    by (cases s; cases "tl s"; cases "tl (tl s)") (auto simp: whiteSpaceLength_def)
  ultimately show "(drop (whiteSpaceLength s) s, s) \<in> measure length" by simp
qed

declare skipWhiteSpace.simps [simp del]

definition digitValue :: "nat \<Rightarrow> char \<Rightarrow> nat option" where
  "digitValue radix c =
     (let k = (of_char c :: nat);
          v = (if 48 \<le> k \<and> k \<le> 57 then Some (k - 48)
               else if 97 \<le> k \<and> k \<le> 122 then Some (k - 87)
               else if 65 \<le> k \<and> k \<le> 90 then Some (k - 55)
               else None)
      in case v of None \<Rightarrow> None | Some d \<Rightarrow> if d < radix then Some d else None)"

text \<open>
  The nearest double of a natural number, ties to the even mantissa; \<open>None\<close> when it is
  beyond the largest double.
\<close>

function bitLength :: "nat \<Rightarrow> nat" where
  "bitLength n = (if n = 0 then 0 else Suc (bitLength (n div 2)))"
  by pat_completeness auto
termination
  by (relation "measure (\<lambda>n. n)") auto

declare bitLength.simps [simp del]

definition toDouble :: "nat \<Rightarrow> nat option" where
  "toDouble m =
     (if m \<le> 2 ^ 53 then Some m
      else (let e = bitLength m - 53;
                q = m div 2 ^ e;
                r = m mod 2 ^ e;
                q' = (if 2 ^ e < 2 * r \<or> (2 * r = 2 ^ e \<and> odd q) then q + 1 else q)
            in if 2 ^ 1024 \<le> q' * 2 ^ e then None else Some (q' * 2 ^ e)))"

text \<open>
  \<open>parseInt\<close> with no radix: leading white space is skipped, then an optional sign, then
  an optional \<open>0x\<close> prefix that selects radix 16, then the longest run of digits, whose
  value is rounded to a double; no digit at all gives \<open>NaN\<close>. (Past the 20th significant
  decimal digit ECMAScript lets a browser read the digits as 0; the rounding here is
  the exact one, and nothing below reads a number of more than 16 significant digits.)
\<close>

definition parseInt :: "string \<Rightarrow> number" where
  "parseInt input =
     (let s = skipWhiteSpace input;
          (sign, s1) = (case s of [] \<Rightarrow> (1, s)
                        | c # r \<Rightarrow> if c = CHR ''-'' then (- 1, r)
                                   else if c = CHR ''+'' then (1, r) else (1, s));
          (radix, s2) = (if take 2 s1 = ''0x'' \<or> take 2 s1 = ''0X'' then (16, drop 2 s1)
                         else (10, s1));
          z = takeWhile (\<lambda>c. digitValue radix c \<noteq> None) s2
      in if z = [] then NaN
         else (case toDouble (foldl (\<lambda>acc c. acc * radix + the (digitValue radix c)) 0 z) of
                 None \<Rightarrow> if sign < 0 then NegInfinity else PosInfinity
               | Some v \<Rightarrow> Num (sign * int v)))"

text \<open>The ASCII white space, for the example browser's \<open>trim\<close>.\<close>

definition isWhiteSpace :: "char \<Rightarrow> bool" where
  "isWhiteSpace c = (c \<in> {CHR 0x09, CHR 0x0A, CHR 0x0B, CHR 0x0C, CHR 0x0D, CHR 0x20})"

datatype js_error = NetworkError | HttpError nat | SyntaxError | URIError

section \<open>Products and the catalog store (ProductManager)\<close>

record product =
  prod_id :: int
  name :: string
  description :: string
  details :: string
  category :: string
  price :: rat
  icon :: string

record response =
  ok :: bool
  status :: nat
  json :: "product list option"

datatype console_entry = LogLoaded nat | ErrorFailedToLoad js_error

record manager =
  products :: "product list"
  console :: "console_entry list"

text \<open>
  The body of the \<open>try\<close> of \<open>loadProducts\<close>: \<open>fetch\<close> rejects (\<open>None\<close>) or gives a
  response; a response that is not \<open>ok\<close> is thrown as an error; \<open>response.json()\<close>
  rejects (\<open>None\<close>) or gives the product list, which is stored and returned.
\<close>

definition productsPath :: "host \<Rightarrow> string" where
  "productsPath h = (if includes_js (pathname h) ''/products/'' then ''products.json''
                     else ''products/products.json'')"

definition loadProducts_try ::
  "host \<Rightarrow> (string \<Rightarrow> response option) \<Rightarrow> manager \<Rightarrow> js_error + (product list \<times> manager)" where
  "loadProducts_try h fetch m =
     (case fetch (productsPath h) of
           None \<Rightarrow> Inl NetworkError
         | Some resp \<Rightarrow>
             if \<not> ok resp then Inl (HttpError (status resp))
             else (case json resp of
                     None \<Rightarrow> Inl SyntaxError
                   | Some ps \<Rightarrow>
                       Inr (ps, m\<lparr>products := ps,
                                  console := console m @ [LogLoaded (length ps)]\<rparr>)))"

definition loadProducts ::
  "host \<Rightarrow> (string \<Rightarrow> response option) \<Rightarrow> manager \<Rightarrow> js_error + (product list \<times> manager)" where
  "loadProducts h fetch m =
     (case loadProducts_try h fetch m of
        Inr r \<Rightarrow> Inr r
      | Inl e \<Rightarrow> Inr ([], m\<lparr>console := console m @ [ErrorFailedToLoad e]\<rparr>))"

section \<open>The listing page (ProductsPage)\<close>

text \<open>
  The filter state. \<open>maxPrice\<close> starts at 250 and is then the \<open>parseInt\<close> of the value of
  the price range input, which always reads as a number.
\<close>

record filterState =
  search :: string
  categoryFilter :: string
  maxPrice :: rat
  sortBy :: string

text \<open>
  Arrays are objects: \<open>allProducts\<close> and \<open>filteredProducts\<close> hold references into a
  store of arrays, \<open>filter\<close> and the spread \<open>[...xs]\<close> allocate a new array, and
  \<open>sort\<close> overwrites the array it is called on.
\<close>

record page =
  arrays :: "nat \<Rightarrow> product list"
  fresh :: nat
  allProducts :: nat
  filteredProducts :: nat
  filters :: filterState

definition new_array :: "product list \<Rightarrow> page \<Rightarrow> nat \<times> page" where
  "new_array xs s = (fresh s, s\<lparr>arrays := (arrays s)(fresh s := xs), fresh := Suc (fresh s)\<rparr>)"

text \<open>
  \<open>Array.prototype.sort\<close> with a comparator: ECMAScript requires the sort to be stable
  and, for a consistent comparator, the result to be in non-decreasing comparator order.
  That determines the result (\<open>array_sort_unique\<close> below); it is computed here by stable
  insertion.
\<close>

fun insert_by :: "('a \<Rightarrow> 'a \<Rightarrow> 'b::{zero,linorder}) \<Rightarrow> 'a \<Rightarrow> 'a list \<Rightarrow> 'a list" where
  "insert_by cmp x [] = [x]"
| "insert_by cmp x (y # ys) = (if cmp x y \<le> 0 then x # y # ys else y # insert_by cmp x ys)"

definition array_sort :: "('a \<Rightarrow> 'a \<Rightarrow> 'b::{zero,linorder}) \<Rightarrow> 'a list \<Rightarrow> 'a list" where
  "array_sort cmp xs = foldr (insert_by cmp) xs []"

text \<open>The callback given to \<open>allProducts.filter\<close>, with its early returns.\<close>

definition filterCallback :: "host \<Rightarrow> filterState \<Rightarrow> product \<Rightarrow> bool" where
  "filterCallback h f product =
     (if search f \<noteq> [] \<and>
         \<not> (let q = toLowerCase h (search f)
            in includes_js (toLowerCase h (name product)) q \<or>
               includes_js (toLowerCase h (description product)) q)
      then False
      else if categoryFilter f \<noteq> [] \<and> category product \<noteq> categoryFilter f then False
      else if price product > maxPrice f then False
      else True)"

text \<open>The \<open>switch\<close> of \<open>applySort\<close> on the copied array.\<close>

definition sort_switch :: "host \<Rightarrow> string \<Rightarrow> product list \<Rightarrow> product list" where
  "sort_switch h key xs =
     (if key = ''price-low'' then array_sort (\<lambda>a b. price a - price b) xs
      else if key = ''price-high'' then array_sort (\<lambda>a b. price b - price a) xs
      else array_sort (\<lambda>a b. localeCompare h (name a) (name b)) xs)"

definition applySort :: "host \<Rightarrow> page \<Rightarrow> page" where
  "applySort h s =
     (let (sorted, s1) = new_array (arrays s (filteredProducts s)) s;
          s2 = s1\<lparr>arrays := (arrays s1)
                  (sorted := sort_switch h (sortBy (filters s1)) (arrays s1 sorted))\<rparr>
      in s2\<lparr>filteredProducts := sorted\<rparr>)"

definition applyFilters :: "host \<Rightarrow> page \<Rightarrow> page" where
  "applyFilters h s =
     (let (result, s1) =
            new_array (filter (filterCallback h (filters s)) (arrays s (allProducts s))) s
      in applySort h (s1\<lparr>filteredProducts := result\<rparr>))"

text \<open>The list the page shows after a run of the pipeline, and the catalog it reads.\<close>

definition shown :: "page \<Rightarrow> product list" where
  "shown s = arrays s (filteredProducts s)"

definition catalog :: "page \<Rightarrow> product list" where
  "catalog s = arrays s (allProducts s)"

section \<open>Escaping and the HTML templates\<close>

definition escapeHtml :: "string \<Rightarrow> string" where
  "escapeHtml unsafe =
     replaceAll [squote] ''&#039;''
       (replaceAll [dquote] ''&quot;''
         (replaceAll ''>'' ''&gt;''
           (replaceAll ''<'' ''&lt;''
             (replaceAll ''&'' ''&amp;'' unsafe))))"

text \<open>
  \<open>x || d\<close> on strings; a line break of a template literal followed by its indentation;
  the currency sign as the files hold it (UTF-8, and in the listing page's file the
  same bytes decoded and encoded once more).
\<close>

definition or_else :: "string \<Rightarrow> string \<Rightarrow> string" where
  "or_else s d = (if s = [] then d else s)"

definition nl :: "nat \<Rightarrow> string" where
  "nl k = CHR 0x0A # replicate k (CHR '' '')"

definition rupee :: string where
  "rupee = [CHR 0xE2, CHR 0x82, CHR 0xB9]"

definition rupee_garbled :: string where
  "rupee_garbled = [CHR 0xC3, CHR 0xA2, CHR 0xE2, CHR 0x80, CHR 0x9A, CHR 0xC2, CHR 0xB9]"

definition createProductCard :: "host \<Rightarrow> product \<Rightarrow> js_error + string" where
  \<open>createProductCard h product =
     (case encodeURIComponent h (or_else (icon product) []) of
        None \<Rightarrow> Inl URIError
      | Some folder \<Rightarrow> Inr (
          nl 12 @ ''<div class="product-card" role="listitem">'' @
          nl 16 @ ''<div class="product-image product-image-carousel" data-folder="'' @ folder @ ''"></div>'' @
          nl 16 @ ''<div class="product-info">'' @
          nl 20 @ ''<span class="product-category">'' @ escapeHtml (or_else (category product) ''Medicine'') @ ''</span>'' @
          nl 20 @ ''<h3 class="product-name">'' @ escapeHtml (name product) @ ''</h3>'' @
          nl 20 @ ''<p class="product-description">'' @ escapeHtml (description product) @ ''</p>'' @
          nl 20 @ ''<div class="product-price">'' @ rupee_garbled @ toFixed2 h (price product) @ ''</div>'' @
          nl 20 @ ''<div class="product-actions">'' @
          nl 24 @ ''<a href="product-detail.html?id='' @ toString h (Num (prod_id product)) @ ''" class="btn btn-sm btn-secondary">Details</a>'' @
          nl 20 @ ''</div>'' @
          nl 16 @ ''</div>'' @
          nl 12 @ ''</div>'' @
          nl 8))\<close>

definition UIManager_createProductCard :: "host \<Rightarrow> product \<Rightarrow> js_error + string" where
  \<open>UIManager_createProductCard h product =
     (case encodeURIComponent h (or_else (icon product) []) of
        None \<Rightarrow> Inl URIError
      | Some folder \<Rightarrow> Inr (
          nl 12 @ ''<div class="product-card" role="listitem">'' @
          nl 16 @ ''<div class="product-image product-image-carousel" data-folder="'' @ folder @ ''"></div>'' @
          nl 16 @ ''<div class="product-info">'' @
          nl 20 @ ''<span class="product-category">'' @ or_else (category product) ''Medicine'' @ ''</span>'' @
          nl 20 @ ''<h3 class="product-name">'' @ escapeHtml (name product) @ ''</h3>'' @
          nl 20 @ ''<p class="product-description">'' @ escapeHtml (description product) @ ''</p>'' @
          nl 20 @ ''<div class="product-price">'' @ rupee @ toFixed2 h (price product) @ ''</div>'' @
          nl 20 @ ''<div class="product-actions">'' @
          nl 24 @ ''<a href="products/product-detail.html?id='' @ toString h (Num (prod_id product)) @ ''" class="btn btn-sm btn-secondary">View Details</a>'' @
          nl 20 @ ''</div>'' @
          nl 16 @ ''</div>'' @
          nl 12 @ ''</div>'' @
          nl 8))\<close>

definition detailHTML :: "host \<Rightarrow> product \<Rightarrow> js_error + string" where
  \<open>detailHTML h product =
     (case encodeURIComponent h (or_else (icon product) []) of
        None \<Rightarrow> Inl URIError
      | Some folder \<Rightarrow> Inr (
          nl 12 @ ''<div class="product-detail-grid">'' @
          nl 16 @ ''<div class="product-detail-image product-detail-carousel" data-folder="'' @ folder @ ''">'' @
          nl 16 @ ''</div>'' @
          nl 0 @
          nl 16 @ ''<div class="product-detail-info">'' @
          nl 20 @ ''<h1>'' @ escapeHtml (name product) @ ''</h1>'' @
          nl 20 @
          nl 20 @ ''<div class="product-meta">'' @
          nl 24 @ ''<div class="meta-item">'' @
          nl 28 @ ''<span class="meta-label">Category</span>'' @
          nl 28 @ ''<span class="meta-value" style="text-transform: capitalize;">'' @ escapeHtml (or_else (category product) ''Medicine'') @ ''</span>'' @
          nl 24 @ ''</div>'' @
          nl 20 @ ''</div>'' @
          nl 0 @
          nl 20 @ ''<p class="product-description-full">'' @
          nl 24 @ escapeHtml (description product) @
          nl 20 @ ''</p>'' @
          nl 0 @
          nl 20 @ ''<div class="product-features">'' @
          nl 24 @ ''<h3>Key Information</h3>'' @
          nl 24 @ ''<p>'' @ escapeHtml (details product) @ ''</p>'' @
          nl 20 @ ''</div>'' @
          nl 0 @
          nl 20 @ ''<div class="product-price-display">'' @
          nl 24 @ rupee @ toFixed2 h (price product) @
          nl 20 @ ''</div>'' @
          nl 0 @
          nl 20 @ ''<div class="action-buttons">'' @
          nl 24 @ ''<a href="index.html" class="btn btn-primary btn-lg">Browse More Products</a>'' @
          nl 24 @ ''<a href="../contact/index.html" class="btn btn-secondary btn-lg">Inquire Now</a>'' @
          nl 20 @ ''</div>'' @
          nl 16 @ ''</div>'' @
          nl 12 @ ''</div>'' @
          nl 8))\<close>

definition relatedProductCard :: "host \<Rightarrow> product \<Rightarrow> js_error + string" where
  \<open>relatedProductCard h product =
     (case encodeURIComponent h (or_else (icon product) []) of
        None \<Rightarrow> Inl URIError
      | Some folder \<Rightarrow> Inr (
          nl 12 @ ''<div class="product-card" role="listitem">'' @
          nl 16 @ ''<div class="product-image product-image-carousel" data-folder="'' @ folder @ ''"></div>'' @
          nl 16 @ ''<div class="product-info">'' @
          nl 20 @ ''<span class="product-category">'' @ escapeHtml (or_else (category product) ''Medicine'') @ ''</span>'' @
          nl 20 @ ''<h3 class="product-name">'' @ escapeHtml (name product) @ ''</h3>'' @
          nl 20 @ ''<p class="product-description">'' @ escapeHtml (description product) @ ''</p>'' @
          nl 20 @ ''<div class="product-price">'' @ rupee @ toFixed2 h (price product) @ ''</div>'' @
          nl 20 @ ''<div class="product-actions">'' @
          nl 24 @ ''<a href="product-detail.html?id='' @ toString h (Num (prod_id product)) @ ''" class="btn btn-sm btn-secondary">View Details</a>'' @
          nl 20 @ ''</div>'' @
          nl 16 @ ''</div>'' @
          nl 12 @ ''</div>'' @
          nl 8))\<close>

section \<open>The detail page (ProductDetailPage)\<close>

text \<open>\<open>getById\<close> is given a number and passes it to \<open>parseInt\<close>, which reads its text.\<close>

definition getById :: "host \<Rightarrow> manager \<Rightarrow> number \<Rightarrow> product option" where
  "getById h m ident = find (\<lambda>p. Num (prod_id p) = parseInt (toString h ident)) (products m)"

definition truthy :: "number \<Rightarrow> bool" where
  "truthy x = (case x of NaN \<Rightarrow> False | Num n \<Rightarrow> n \<noteq> 0
               | PosInfinity \<Rightarrow> True | NegInfinity \<Rightarrow> True)"

text \<open>
  What the page shows: the product with the HTML of its detail, the HTML of its related
  products and the title of the document; or an error message.
\<close>

datatype detail_view = DisplayProduct product string string string | ErrorMessage string

text \<open>
  \<open>displayRelatedProducts\<close>: at most four other products of the same category, each as a
  card; building a card can throw, and then so does the whole.
\<close>

definition noRelatedProducts :: string where
  \<open>noRelatedProducts = ''<p style="grid-column: 1/-1; text-align: center; padding: 2rem; color: #666;">No related products found.</p>''\<close>

fun relatedCards :: "host \<Rightarrow> product list \<Rightarrow> js_error + string" where
  "relatedCards h [] = Inr []"
| "relatedCards h (p # ps) =
     (case relatedProductCard h p of
        Inl e \<Rightarrow> Inl e
      | Inr html \<Rightarrow> (case relatedCards h ps of Inl e \<Rightarrow> Inl e | Inr rest \<Rightarrow> Inr (html @ rest)))"

definition displayRelatedProducts :: "host \<Rightarrow> product list \<Rightarrow> product \<Rightarrow> js_error + string" where
  "displayRelatedProducts h allProducts' product =
     (let related = take 4 (filter (\<lambda>p. category p = category product \<and> prod_id p \<noteq> prod_id product)
                              allProducts')
      in if related = [] then Inr noRelatedProducts else relatedCards h related)"

definition pageTitle :: "product \<Rightarrow> string" where
  "pageTitle product = name product @ '' - R. Pharma Exports | Professional Healthcare Solutions''"

text \<open>
  \<open>init\<close>. \<open>idParam\<close> is \<open>urlParams.get('id')\<close>: \<open>None\<close> is \<open>null\<close>, which \<open>parseInt\<close> reads
  as the text \<open>null\<close>. The catalog that \<open>getById\<close> searches is the one the manager holds;
  the related products come from \<open>allProducts'\<close>, the page's own \<open>allProducts\<close>, which is
  the list that \<open>loadProducts\<close> returned. An error thrown
  while the product is displayed is not caught. The carousel of the detail, built later
  inside a \<open>try\<close>, is left out.
\<close>

definition detail_init ::
  "host \<Rightarrow> (string \<Rightarrow> response option) \<Rightarrow> manager \<Rightarrow> string option
     \<Rightarrow> js_error + (detail_view \<times> manager)" where
  "detail_init h fetch m idParam =
     (case loadProducts h fetch m of
        Inl e \<Rightarrow> Inl e
      | Inr (allProducts', m') \<Rightarrow>
          (let productId = parseInt (case idParam of None \<Rightarrow> ''null'' | Some v \<Rightarrow> v)
           in if truthy productId
              then (case getById h m' productId of
                      Some currentProduct \<Rightarrow>
                        (case detailHTML h currentProduct of
                           Inl e \<Rightarrow> Inl e
                         | Inr detail \<Rightarrow>
                             (case displayRelatedProducts h allProducts' currentProduct of
                                Inl e \<Rightarrow> Inl e
                              | Inr related \<Rightarrow>
                                  Inr (DisplayProduct currentProduct detail related
                                         (pageTitle currentProduct), m')))
                    | None \<Rightarrow> Inr (ErrorMessage ''Product not found'', m'))
              else Inr (ErrorMessage ''No product specified'', m')))"

section \<open>Carousel\<close>

definition MAX_IMAGES :: nat where
  "MAX_IMAGES = 12"

definition EXTENSIONS :: "string list" where
  "EXTENSIONS = [''jpeg'', ''jpg'', ''png'']"

definition basePath :: "host \<Rightarrow> string" where
  "basePath h = (if includes_js (pathname h) ''/products/'' then ''../'' else [])"

definition loadImage :: "host \<Rightarrow> string \<Rightarrow> bool" where
  "loadImage h url = imageLoads h url"

text \<open>
  The inner loop over the extensions at index \<open>i\<close>; \<open>attempts\<close> records every URL given
  to \<open>loadImage\<close>, in order.
\<close>

definition candidate_url :: "host \<Rightarrow> string \<Rightarrow> nat \<Rightarrow> string \<Rightarrow> string" where
  "candidate_url h encodedFolder i ext = basePath h @ encodedFolder @ ''/'' @ digits i @ ''.'' @ ext"

fun try_extensions ::
  "host \<Rightarrow> string \<Rightarrow> nat \<Rightarrow> string list \<Rightarrow> string list \<Rightarrow> string option \<times> string list" where
  "try_extensions h encodedFolder i [] attempts = (None, attempts)"
| "try_extensions h encodedFolder i (ext # exts) attempts =
     (let url = candidate_url h encodedFolder i ext
      in if loadImage h url then (Some url, attempts @ [url])
         else try_extensions h encodedFolder i exts (attempts @ [url]))"

function probe_loop ::
  "host \<Rightarrow> string \<Rightarrow> nat \<Rightarrow> string list \<Rightarrow> string list \<Rightarrow> string list \<times> string list" where
  "probe_loop h encodedFolder i urls attempts =
     (if i \<le> MAX_IMAGES
      then (case try_extensions h encodedFolder i EXTENSIONS attempts of
              (Some url, attempts') \<Rightarrow> probe_loop h encodedFolder (Suc i) (urls @ [url]) attempts'
            | (None, attempts') \<Rightarrow> (urls, attempts'))
      else (urls, attempts))"
  by pat_completeness auto
termination
  by (relation "measure (\<lambda>(h, e, i, urls, attempts). Suc MAX_IMAGES - i)") auto

declare probe_loop.simps [simp del]

text \<open>The result is the list of URLs and the list of image loads attempted.\<close>

definition probeImages :: "host \<Rightarrow> string \<Rightarrow> js_error + (string list \<times> string list)" where
  "probeImages h folder =
     (if folder = [] then Inr ([], [])
      else case decodeURIComponent h folder of
        None \<Rightarrow> Inl URIError
      | Some d \<Rightarrow>
          (let decoded = trim h d
           in if decoded = [] then Inr ([], [])
              else case encodeURIComponent h decoded of
                None \<Rightarrow> Inl URIError
              | Some e \<Rightarrow>
                  (let encodedFolder = replaceAll ''%2F'' ''/'' e
                   in Inr (probe_loop h encodedFolder 1 [] []))))"



record opts =
  auto :: "bool option"
  interval :: "nat option"
  controls :: "bool option"









section \<open>The properties, as the specification words them\<close>

text \<open>
  A text occurs in another one; a product matches a search text without regard to case,
  in its name or in its description; the three inclusion predicates together.
\<close>

definition is_substring :: "string \<Rightarrow> string \<Rightarrow> bool" where
  "is_substring q s = (\<exists>pre post. s = pre @ q @ post)"

definition matches_search :: "host \<Rightarrow> string \<Rightarrow> product \<Rightarrow> bool" where
  "matches_search h q p =
     (is_substring (toLowerCase h q) (toLowerCase h (name p)) \<or>
      is_substring (toLowerCase h q) (toLowerCase h (description p)))"

definition satisfies :: "host \<Rightarrow> filterState \<Rightarrow> product \<Rightarrow> bool" where
  "satisfies h f p =
     ((search f = [] \<or> matches_search h (search f) p) \<and>
      (categoryFilter f = [] \<or> category p = categoryFilter f) \<and>
      price p \<le> maxPrice f)"

text \<open>
  A consistent comparator in the sense of ECMAScript: the sign is antisymmetric and
  "not greater" is transitive, so the comparator orders its equivalence classes totally.
\<close>

definition consistent_comparator :: "('a \<Rightarrow> 'a \<Rightarrow> int) \<Rightarrow> bool" where
  "consistent_comparator cmp =
     ((\<forall>a b. (cmp a b < 0) = (0 < cmp b a)) \<and>
      (\<forall>a b c. cmp a b \<le> 0 \<longrightarrow> cmp b c \<le> 0 \<longrightarrow> cmp a c \<le> 0))"

text \<open>
  A text of decimal digits and the number it writes; a well-formed integer identifier is
  such a text, or a minus sign before one, and has the value it writes.
\<close>

definition is_decimal :: "string \<Rightarrow> bool" where
  "is_decimal s = (s \<noteq> [] \<and> list_all (\<lambda>c. digitValue 10 c \<noteq> None) s)"

definition decimal_value :: "string \<Rightarrow> nat" where
  "decimal_value s = foldl (\<lambda>acc c. acc * 10 + the (digitValue 10 c)) 0 s"

definition well_formed_integer :: "string \<Rightarrow> bool" where
  "well_formed_integer v =
     (is_decimal v \<or> (case v of [] \<Rightarrow> False | c # s \<Rightarrow> c = CHR ''-'' \<and> is_decimal s))"

definition identifier_value :: "string \<Rightarrow> int" where
  "identifier_value v =
     (case v of [] \<Rightarrow> 0
      | c # s \<Rightarrow> if c = CHR ''-'' then - int (decimal_value s) else int (decimal_value v))"

text \<open>The message that the detail page shows, and the product it displays.\<close>

definition message_shown :: "js_error + (detail_view \<times> manager) \<Rightarrow> string option" where
  "message_shown r = (case r of Inr (ErrorMessage t, m) \<Rightarrow> Some t | _ \<Rightarrow> None)"

definition product_displayed :: "js_error + (detail_view \<times> manager) \<Rightarrow> product option" where
  "product_displayed r = (case r of Inr (DisplayProduct p d r t, m) \<Rightarrow> Some p | _ \<Rightarrow> None)"







text \<open>
  The first extension, in the order of \<open>EXTENSIONS\<close>, whose candidate URL at index \<open>i\<close>
  loads; and the URLs the prober is to return: for the indices from 1 up to the first
  one where no extension loads, and at most \<open>MAX_IMAGES\<close> of them, the candidate with that
  first extension.
\<close>

definition first_loading_ext :: "host \<Rightarrow> string \<Rightarrow> nat \<Rightarrow> string option" where
  "first_loading_ext h enc i = find (\<lambda>ext. loadImage h (candidate_url h enc i ext)) EXTENSIONS"

definition expected_urls :: "host \<Rightarrow> string \<Rightarrow> string list" where
  "expected_urls h enc =
     map (\<lambda>i. candidate_url h enc i (the (first_loading_ext h enc i)))
       (takeWhile (\<lambda>i. first_loading_ext h enc i \<noteq> None) [1 ..< Suc MAX_IMAGES])"



text \<open>
  The five entities that \<open>escapeHtml\<close> emits; the text has one of them at position \<open>i\<close>;
  the characters that open or close markup or an attribute value; and what one character
  becomes under \<open>escapeHtml\<close>.
\<close>

definition entities :: "string list" where
  "entities = [''&amp;'', ''&lt;'', ''&gt;'', ''&quot;'', ''&#039;'']"

definition entity_at :: "string \<Rightarrow> nat \<Rightarrow> bool" where
  "entity_at s i = list_ex (\<lambda>e. take (length e) (drop i s) = e) entities"

definition markup_char :: "char \<Rightarrow> bool" where
  "markup_char c = (c = CHR ''<'' \<or> c = CHR ''>'' \<or> c = dquote \<or> c = squote)"

definition escape_char :: "char \<Rightarrow> string" where
  "escape_char c =
     (if c = CHR ''&'' then ''&amp;'' else if c = CHR ''<'' then ''&lt;''
      else if c = CHR ''>'' then ''&gt;'' else if c = dquote then ''&quot;''
      else if c = squote then ''&#039;'' else [c])"

text \<open>
  A template holds the name and the description of its product once each, and only as
  \<open>escapeHtml\<close> gives them.
\<close>

definition embeds_escaped :: "(host \<Rightarrow> product \<Rightarrow> js_error + string) \<Rightarrow> host \<Rightarrow> product \<Rightarrow> bool" where
  "embeds_escaped template h p =
     (\<exists>pre mid post. \<forall>n d.
        template h (p\<lparr>name := n, description := d\<rparr>) =
          Inr (pre @ escapeHtml n @ mid @ escapeHtml d @ post))"

text \<open>The HTML that a template gives holds a text.\<close>

definition html_includes :: "js_error + string \<Rightarrow> string \<Rightarrow> bool" where
  "html_includes r q = (case r of Inl e \<Rightarrow> False | Inr html \<Rightarrow> includes_js html q)"

text \<open>Every \<open>&\<close> of a text starts one of the entities.\<close>

definition amp_ok :: "string \<Rightarrow> bool" where
  "amp_ok s = (\<forall>i < length s. s ! i = CHR ''&'' \<longrightarrow> entity_at s i)"
section \<open>A browser for the examples\<close>

text \<open>
  A host for ASCII text, used to run the definitions on concrete inputs: lower-casing of
  \<open>A\<close> to \<open>Z\<close>, comparison of strings byte by byte, trimming of ASCII white space,
  percent-decoding and percent-encoding of single bytes; a number above \<open>2^53\<close> is
  written with all its digits (the examples have none).
\<close>

definition ascii_lower :: "char \<Rightarrow> char" where
  "ascii_lower c = (let k = (of_char c :: nat) in if 65 \<le> k \<and> k \<le> 90 then char_of (k + 32) else c)"

fun bytewise_compare :: "string \<Rightarrow> string \<Rightarrow> int" where
  "bytewise_compare [] [] = 0"
| "bytewise_compare [] (y # ys) = - 1"
| "bytewise_compare (x # xs) [] = 1"
| "bytewise_compare (x # xs) (y # ys) =
     (if (of_char x :: nat) < of_char y then - 1
      else if (of_char y :: nat) < of_char x then 1
      else bytewise_compare xs ys)"

definition ascii_trim :: "string \<Rightarrow> string" where
  "ascii_trim s = rev (dropWhile isWhiteSpace (rev (dropWhile isWhiteSpace s)))"

fun percent_decode :: "string \<Rightarrow> string option" where
  "percent_decode [] = Some []"
| "percent_decode [c] = (if c = CHR ''%'' then None else Some [c])"
| "percent_decode [c, a] = (if c = CHR ''%'' then None else map_option ((#) c) (percent_decode [a]))"
| "percent_decode (c # a # b # rest) =
     (if c = CHR ''%''
      then (case (digitValue 16 a, digitValue 16 b) of
              (Some x, Some y) \<Rightarrow>
                if 16 * x + y < 128
                then map_option ((#) (char_of (16 * x + y))) (percent_decode rest)
                else None
            | _ \<Rightarrow> None)
      else map_option ((#) c) (percent_decode (a # b # rest)))"

definition hex_char :: "nat \<Rightarrow> char" where
  "hex_char d = (if d < 10 then char_of (48 + d) else char_of (55 + d))"

definition unreserved :: "char \<Rightarrow> bool" where
  "unreserved c =
     (let k = (of_char c :: nat)
      in (48 \<le> k \<and> k \<le> 57) \<or> (65 \<le> k \<and> k \<le> 90) \<or> (97 \<le> k \<and> k \<le> 122) \<or>
         c \<in> set ''-_.!~*()'' \<or> c = squote)"

definition percent_encode :: "string \<Rightarrow> string" where
  "percent_encode s =
     concat (map (\<lambda>c. if unreserved c then [c]
                       else [CHR ''%'', hex_char (of_char c div 16), hex_char (of_char c mod 16)]) s)"

definition fixed2 :: "rat \<Rightarrow> string" where
  "fixed2 r = (let cents = nat \<lfloor>r * 100 + 1 / 2\<rfloor>
               in digits (cents div 100) @ ''.'' @
                  [digit_char (cents div 10 mod 10), digit_char (cents mod 10)])"

definition demo_host :: host where
  "demo_host =
     \<lparr>toLowerCase = map ascii_lower,
      localeCompare = bytewise_compare,
      trim = ascii_trim,
      decodeURIComponent = percent_decode,
      encodeURIComponent = (\<lambda>s. Some (percent_encode s)),
      toFixed2 = fixed2,
      imageLoads = (\<lambda>url. url \<in> {''amlo/1.jpeg'', ''amlo/1.png'', ''amlo/2.png'', ''amlo/3.jpg'',
                                   ''amlo/5.jpeg''}),
      pathname = ''/index.html'',
      largeNumberText = digits\<rparr>"

text \<open>The two products of the specification's scenarios, and a page that holds them.\<close>

definition amlo :: product where
  "amlo = \<lparr>prod_id = 1, name = ''Amlo'', description = ''Amlodipine 5mg'', details = [],
           category = ''cardiac'', price = 10, icon = ''amlo''\<rparr>"

definition zinc :: product where
  "zinc = \<lparr>prod_id = 2, name = ''Zinc'', description = ''Zinc tablets'', details = [],
           category = ''supplement'', price = 5, icon = ''zinc''\<rparr>"

definition demo_page :: "rat \<Rightarrow> string \<Rightarrow> page" where
  "demo_page limit key =
     \<lparr>arrays = (\<lambda>a. if a = 0 then [amlo, zinc] else []),
      fresh = 1, allProducts = 0, filteredProducts = 0,
      filters = \<lparr>search = [], categoryFilter = [], maxPrice = limit, sortBy = key\<rparr>\<rparr>"

definition demo_manager :: manager where
  "demo_manager = \<lparr>products = [], console = []\<rparr>"

definition demo_fetch :: "string \<Rightarrow> response option" where
  "demo_fetch path = (if path = ''products/products.json''
                      then Some \<lparr>ok = True, status = 200, json = Some [amlo, zinc]\<rparr>
                      else Some \<lparr>ok = False, status = 404, json = None\<rparr>)"

text \<open>A catalog whose only product has the id \<open>2^53\<close>, the last integer that every double can tell
  from its successor.\<close>

definition vial :: product where
  "vial = \<lparr>prod_id = 9007199254740992, name = ''Vial'', description = ''Saline 10ml'', details = [],
           category = ''injection'', price = 3, icon = ''vial''\<rparr>"

definition large_fetch :: "string \<Rightarrow> response option" where
  "large_fetch path = (if path = ''products/products.json''
                       then Some \<lparr>ok = True, status = 200, json = Some [vial]\<rparr>
                       else Some \<lparr>ok = False, status = 404, json = None\<rparr>)"

text \<open>A product whose category, as \<open>products.json\<close> gives it, is the text of an element.\<close>

definition tainted :: product where
  "tainted = zinc\<lparr>category := ''<img src=x onerror=alert(1)>''\<rparr>"

text \<open>A browser in which every image loads, and a container to render into.\<close>

definition always_loads_host :: host where
  "always_loads_host = demo_host\<lparr>imageLoads := (\<lambda>url. True)\<rparr>"

section \<open>Substrings, sorting and the array store\<close>

lemma take_eq_iff_prefix: "(take (length q) s = q) = (\<exists>post. s = q @ post)"
proof
  assume "take (length q) s = q"
  then have "s = q @ drop (length q) s" by (metis append_take_drop_id)
  then show "\<exists>post. s = q @ post" ..
next
  assume "\<exists>post. s = q @ post"
  then show "take (length q) s = q" by auto
qed

lemma includes_js_iff: "includes_js s q = is_substring q s"
proof (induction s)
  case Nil
  show ?case by (auto simp: is_substring_def)
next
  case (Cons c cs)
  have "is_substring q (c # cs) = ((\<exists>post. c # cs = q @ post) \<or> is_substring q cs)"
  proof
    assume "is_substring q (c # cs)"
    then obtain pre post where e: "c # cs = pre @ q @ post" by (auto simp: is_substring_def)
    show "(\<exists>post. c # cs = q @ post) \<or> is_substring q cs"
    proof (cases pre)
      case Nil
      with e show ?thesis by auto
    next
      case (Cons a pre')
      with e have "cs = pre' @ q @ post" by simp
      then show ?thesis by (auto simp: is_substring_def)
    qed
  next
    assume "(\<exists>post. c # cs = q @ post) \<or> is_substring q cs"
    then show "is_substring q (c # cs)"
    proof
      assume "\<exists>post. c # cs = q @ post"
      then obtain post where "c # cs = [] @ q @ post" by auto
      then show ?thesis unfolding is_substring_def by blast
    next
      assume "is_substring q cs"
      then obtain pre post where "cs = pre @ q @ post" by (auto simp: is_substring_def)
      then have "c # cs = (c # pre) @ q @ post" by simp
      then show ?thesis unfolding is_substring_def by blast
    qed
  qed
  with Cons show ?case by (simp only: includes_js.simps take_eq_iff_prefix)
qed

lemma filterCallback_iff: "filterCallback h f p = satisfies h f p"
  by (auto simp: filterCallback_def satisfies_def matches_search_def includes_js_iff Let_def)

lemma mset_insert_by: "mset (insert_by cmp x ys) = add_mset x (mset ys)"
  by (induction ys) auto

lemma mset_array_sort: "mset (array_sort cmp xs) = mset xs"
  by (induction xs) (auto simp: array_sort_def mset_insert_by)

lemma set_insert_by: "set (insert_by cmp x ys) = insert x (set ys)"
  by (induction ys) auto

lemma array_sort_Cons: "array_sort cmp (x # xs) = insert_by cmp x (array_sort cmp xs)"
  by (simp add: array_sort_def)

lemma array_sort_Nil: "array_sort cmp [] = []"
  by (simp add: array_sort_def)

lemma sorted_insert_by:
  assumes tot: "\<forall>a b. cmp a b \<le> 0 \<or> cmp b a \<le> 0"
    and tr: "\<forall>a b c. cmp a b \<le> 0 \<longrightarrow> cmp b c \<le> 0 \<longrightarrow> cmp a c \<le> 0"
    and s: "sorted_wrt (\<lambda>a b. cmp a b \<le> 0) ys"
  shows "sorted_wrt (\<lambda>a b. cmp a b \<le> 0) (insert_by cmp x ys)"
  using s
proof (induction ys)
  case Nil
  show ?case by simp
next
  case (Cons y ys)
  show ?case
  proof (cases "cmp x y \<le> 0")
    case True
    have "cmp x z \<le> 0" if "z \<in> set ys" for z
    proof -
      from that Cons.prems have "cmp y z \<le> 0" by simp
      with True tr show ?thesis by blast
    qed
    with True Cons.prems show ?thesis by simp
  next
    case False
    with tot have "cmp y x \<le> 0" by blast
    with False Cons show ?thesis by (simp add: set_insert_by)
  qed
qed

lemma sorted_array_sort:
  assumes tot: "\<forall>a b. cmp a b \<le> 0 \<or> cmp b a \<le> 0"
    and tr: "\<forall>a b c. cmp a b \<le> 0 \<longrightarrow> cmp b c \<le> 0 \<longrightarrow> cmp a c \<le> 0"
  shows "sorted_wrt (\<lambda>a b. cmp a b \<le> 0) (array_sort cmp xs)"
proof (induction xs)
  case Nil
  show ?case by (simp add: array_sort_Nil)
next
  case (Cons x xs)
  from sorted_insert_by [of cmp, OF tot tr Cons]
  show ?case by (simp add: array_sort_Cons)
qed

lemma filter_insert_by:
  assumes eq: "\<forall>a b. P a \<longrightarrow> P b \<longrightarrow> cmp a b \<le> 0"
  shows "filter P (insert_by cmp x ys) = filter P (x # ys)"
proof (induction ys)
  case Nil
  show ?case by simp
next
  case (Cons y ys)
  show ?case
  proof (cases "cmp x y \<le> 0")
    case True
    then show ?thesis by simp
  next
    case False
    with eq have "\<not> (P x \<and> P y)" by blast
    with False Cons show ?thesis by auto
  qed
qed

lemma stable_array_sort:
  assumes eq: "\<forall>a b. P a \<longrightarrow> P b \<longrightarrow> cmp a b \<le> 0"
  shows "filter P (array_sort cmp xs) = filter P xs"
proof (induction xs)
  case Nil
  show ?case by (simp add: array_sort_Nil)
next
  case (Cons x xs)
  have "filter P (array_sort cmp (x # xs)) = filter P (x # array_sort cmp xs)"
    by (simp only: array_sort_Cons filter_insert_by [of P cmp, OF eq])
  with Cons show ?case by simp
qed

text \<open>
  For a comparator that is total and transitive, the sorted and stable rearrangement of a
  list is unique: \<open>array_sort\<close> is the only function that meets what ECMAScript
  requires of \<open>sort\<close>.
\<close>

lemma stable_sorted_equal:
  fixes cmp :: "'a \<Rightarrow> 'a \<Rightarrow> 'b::{zero,linorder}"
  assumes tot: "\<forall>a b. cmp a b \<le> 0 \<or> cmp b a \<le> 0"
  shows "sorted_wrt (\<lambda>a b. cmp a b \<le> 0) ys \<Longrightarrow> sorted_wrt (\<lambda>a b. cmp a b \<le> 0) zs \<Longrightarrow>
         mset ys = mset zs \<Longrightarrow>
         (\<forall>k. filter (\<lambda>p. cmp p k \<le> 0 \<and> cmp k p \<le> 0) ys =
              filter (\<lambda>p. cmp p k \<le> 0 \<and> cmp k p \<le> 0) zs) \<Longrightarrow>
         ys = zs"
proof (induction ys arbitrary: zs)
  case Nil
  then show ?case by simp
next
  case (Cons y ys)
  from Cons.prems(3) obtain z zs' where zs: "zs = z # zs'" by (cases zs) auto
  from tot have refl: "cmp a a \<le> 0" for a by blast
  have "y \<in> set zs" using Cons.prems(3) by (metis list.set_intros(1) set_mset_mset)
  with Cons.prems(2) zs refl have zy: "cmp z y \<le> 0" by auto
  have "z \<in> set (y # ys)" using Cons.prems(3) zs by (metis list.set_intros(1) set_mset_mset)
  with Cons.prems(1) refl have yz: "cmp y z \<le> 0" by auto
  from Cons.prems(4) have "filter (\<lambda>p. cmp p y \<le> 0 \<and> cmp y p \<le> 0) (y # ys) =
                            filter (\<lambda>p. cmp p y \<le> 0 \<and> cmp y p \<le> 0) zs" by blast
  with zs zy yz refl have eq: "y = z" by simp
  have f: "filter (\<lambda>p. cmp p k \<le> 0 \<and> cmp k p \<le> 0) ys =
           filter (\<lambda>p. cmp p k \<le> 0 \<and> cmp k p \<le> 0) zs'" for k
  proof -
    from Cons.prems(4) have "filter (\<lambda>p. cmp p k \<le> 0 \<and> cmp k p \<le> 0) (y # ys) =
                              filter (\<lambda>p. cmp p k \<le> 0 \<and> cmp k p \<le> 0) (y # zs')"
      unfolding zs eq by blast
    then show ?thesis by (simp split: if_splits)
  qed
  from Cons.prems(1) have s1: "sorted_wrt (\<lambda>a b. cmp a b \<le> 0) ys" by simp
  from Cons.prems(2) zs have s2: "sorted_wrt (\<lambda>a b. cmp a b \<le> 0) zs'" by simp
  from Cons.prems(3) zs eq have m: "mset ys = mset zs'" by simp
  from Cons.IH [OF s1 s2 m] f have "ys = zs'" by blast
  with zs eq show ?case by simp
qed

lemma array_sort_unique:
  fixes cmp :: "'a \<Rightarrow> 'a \<Rightarrow> 'b::{zero,linorder}"
  assumes tot: "\<forall>a b. cmp a b \<le> 0 \<or> cmp b a \<le> 0"
    and tr: "\<forall>a b c. cmp a b \<le> 0 \<longrightarrow> cmp b c \<le> 0 \<longrightarrow> cmp a c \<le> 0"
    and s: "sorted_wrt (\<lambda>a b. cmp a b \<le> 0) ys"
    and m: "mset ys = mset xs"
    and st: "\<forall>k. filter (\<lambda>p. cmp p k \<le> 0 \<and> cmp k p \<le> 0) ys =
                 filter (\<lambda>p. cmp p k \<le> 0 \<and> cmp k p \<le> 0) xs"
  shows "ys = array_sort cmp xs"
proof (rule stable_sorted_equal [OF tot s])
  show "sorted_wrt (\<lambda>a b. cmp a b \<le> 0) (array_sort cmp xs)"
    using tot tr by (rule sorted_array_sort)
  show "mset ys = mset (array_sort cmp xs)"
    by (simp add: m mset_array_sort)
  show "\<forall>k. filter (\<lambda>p. cmp p k \<le> 0 \<and> cmp k p \<le> 0) ys =
            filter (\<lambda>p. cmp p k \<le> 0 \<and> cmp k p \<le> 0) (array_sort cmp xs)"
  proof
    fix k
    have "\<forall>a b. (cmp a k \<le> 0 \<and> cmp k a \<le> 0) \<longrightarrow> (cmp b k \<le> 0 \<and> cmp k b \<le> 0) \<longrightarrow> cmp a b \<le> 0"
      using tr by blast
    from stable_array_sort [of "\<lambda>p. cmp p k \<le> 0 \<and> cmp k p \<le> 0" cmp xs, OF this] st
    show "filter (\<lambda>p. cmp p k \<le> 0 \<and> cmp k p \<le> 0) ys =
          filter (\<lambda>p. cmp p k \<le> 0 \<and> cmp k p \<le> 0) (array_sort cmp xs)"
      by simp
  qed
qed

lemma array_sort_sorted_id:
  "sorted_wrt (\<lambda>a b. cmp a b \<le> 0) xs \<Longrightarrow> array_sort cmp xs = xs"
proof (induction xs)
  case Nil
  show ?case by (simp add: array_sort_Nil)
next
  case (Cons x xs)
  then have "array_sort cmp xs = xs" by simp
  moreover have "insert_by cmp x xs = x # xs"
    using Cons.prems by (cases xs) auto
  ultimately show ?case by (simp add: array_sort_Cons)
qed

lemma shown_applySort:
  "shown (applySort h s) = sort_switch h (sortBy (filters s)) (shown s)"
  by (simp add: applySort_def new_array_def shown_def)

lemma shown_applyFilters:
  "shown (applyFilters h s) =
     sort_switch h (sortBy (filters s)) (filter (filterCallback h (filters s)) (catalog s))"
proof -
  let ?r = "filter (filterCallback h (filters s)) (catalog s)"
  let ?t = "s\<lparr>arrays := (arrays s)(fresh s := ?r), fresh := Suc (fresh s),
              filteredProducts := fresh s\<rparr>"
  have "applyFilters h s = applySort h ?t"
    by (simp add: applyFilters_def new_array_def catalog_def)
  moreover have "shown ?t = ?r" and "filters ?t = filters s"
    by (simp_all add: shown_def)
  ultimately show ?thesis
    by (simp only: shown_applySort)
qed

lemma mset_sort_switch: "mset (sort_switch h key xs) = mset xs"
  by (simp add: sort_switch_def mset_array_sort)

lemma frame_applySort:
  "allProducts (applySort h s) = allProducts s \<and> filters (applySort h s) = filters s \<and>
   fresh s \<le> fresh (applySort h s) \<and> (\<forall>a < fresh s. arrays (applySort h s) a = arrays s a)"
  by (simp add: applySort_def new_array_def)

lemma frame_applyFilters:
  "allProducts (applyFilters h s) = allProducts s \<and> filters (applyFilters h s) = filters s \<and>
   fresh s \<le> fresh (applyFilters h s) \<and> (\<forall>a < fresh s. arrays (applyFilters h s) a = arrays s a)"
  by (simp add: applyFilters_def applySort_def new_array_def)

lemma bytewise_compare_antisym: "(bytewise_compare a b < 0) = (0 < bytewise_compare b a)"
  by (induction a b rule: bytewise_compare.induct) auto

lemma bytewise_compare_Cons_le:
  "(bytewise_compare (x # xs) (y # ys) \<le> 0) =
     ((of_char x :: nat) < of_char y \<or> (x = y \<and> bytewise_compare xs ys \<le> 0))"
  by auto

lemma bytewise_compare_trans:
  "bytewise_compare a b \<le> 0 \<Longrightarrow> bytewise_compare b c \<le> 0 \<Longrightarrow> bytewise_compare a c \<le> 0"
proof (induction a arbitrary: b c)
  case Nil
  then show ?case by (cases c) simp_all
next
  case (Cons x xs)
  from Cons.prems(1) obtain y ys where b: "b = y # ys" by (cases b) simp_all
  from Cons.prems(2) b obtain z zs where c: "c = z # zs" by (cases c) simp_all
  from Cons.prems b c
  have 1: "(of_char x :: nat) < of_char y \<or> (x = y \<and> bytewise_compare xs ys \<le> 0)"
    and 2: "(of_char y :: nat) < of_char z \<or> (y = z \<and> bytewise_compare ys zs \<le> 0)"
    by (simp_all only: bytewise_compare_Cons_le)
  from 1 2 Cons.IH [of ys zs]
  have "(of_char x :: nat) < of_char z \<or> (x = z \<and> bytewise_compare xs zs \<le> 0)"
    by (elim disjE conjE) simp_all
  then show ?case unfolding c by (simp only: bytewise_compare_Cons_le)
qed

lemma consistent_bytewise_compare: "consistent_comparator bytewise_compare"
  unfolding consistent_comparator_def
  using bytewise_compare_antisym bytewise_compare_trans by blast

lemma consistent_total:
  assumes "consistent_comparator cmp"
  shows "cmp a b \<le> 0 \<or> cmp b a \<le> 0"
proof (cases "cmp a b \<le> 0")
  case True
  then show ?thesis by simp
next
  case False
  then have "0 < cmp a b" by simp
  with assms have "cmp b a < 0" unfolding consistent_comparator_def by blast
  then show ?thesis by simp
qed

lemma consistent_trans:
  "consistent_comparator cmp \<Longrightarrow> cmp a b \<le> 0 \<Longrightarrow> cmp b c \<le> 0 \<Longrightarrow> cmp a c \<le> 0"
  unfolding consistent_comparator_def by blast

lemma consistent_sym0:
  assumes "consistent_comparator cmp" and "cmp a b = 0"
  shows "cmp b a \<le> 0"
proof (rule ccontr)
  assume "\<not> cmp b a \<le> 0"
  then have "0 < cmp b a" by simp
  with assms(1) have "cmp a b < 0" unfolding consistent_comparator_def by blast
  with assms(2) show False by simp
qed

lemma sorted_by_name:
  assumes "consistent_comparator (localeCompare h)"
  shows "sorted_wrt (\<lambda>a b. localeCompare h (name a) (name b) \<le> 0)
           (array_sort (\<lambda>a b. localeCompare h (name a) (name b)) (xs :: product list))"
proof -
  have tot: "\<forall>(a :: product) (b :: product). localeCompare h (name a) (name b) \<le> 0 \<or>
                                  localeCompare h (name b) (name a) \<le> 0"
    using consistent_total [OF assms] by blast
  have tr: "\<forall>(a :: product) (b :: product) (c :: product). localeCompare h (name a) (name b) \<le> 0 \<longrightarrow>
          localeCompare h (name b) (name c) \<le> 0 \<longrightarrow> localeCompare h (name a) (name c) \<le> 0"
    using consistent_trans [OF assms] by blast
  from sorted_array_sort [of "\<lambda>a b. localeCompare h (name a) (name b)" xs] tot tr
  show ?thesis by simp
qed

lemma stable_by_name:
  assumes "consistent_comparator (localeCompare h)"
  shows "filter (\<lambda>p. localeCompare h (name p) k = 0)
           (array_sort (\<lambda>a b. localeCompare h (name a) (name b)) xs) =
         filter (\<lambda>p. localeCompare h (name p) k = 0) (xs :: product list)"
proof -
  have eq: "\<forall>(a :: product) (b :: product). localeCompare h (name a) k = 0 \<longrightarrow>
          localeCompare h (name b) k = 0 \<longrightarrow> localeCompare h (name a) (name b) \<le> 0"
  proof (intro allI impI)
    fix a b :: product
    assume a: "localeCompare h (name a) k = 0" and b: "localeCompare h (name b) k = 0"
    from assms b have "localeCompare h k (name b) \<le> 0" by (rule consistent_sym0)
    with a consistent_trans [OF assms, of "name a" k "name b"]
    show "localeCompare h (name a) (name b) \<le> 0" by simp
  qed
  from stable_array_sort [of "\<lambda>p. localeCompare h (name p) k = 0"
         "\<lambda>a b. localeCompare h (name a) (name b)" xs] eq
  show ?thesis by simp
qed

lemma price_low_total:
  "\<forall>(a :: product) (b :: product). price a - price b \<le> 0 \<or> price b - price a \<le> 0"
  by auto

lemma price_low_trans:
  "\<forall>(a :: product) (b :: product) (c :: product). price a - price b \<le> 0 \<longrightarrow> price b - price c \<le> 0 \<longrightarrow>
     price a - price c \<le> 0"
  by auto

lemma price_high_total:
  "\<forall>(a :: product) (b :: product). price b - price a \<le> 0 \<or> price a - price b \<le> 0"
  by auto

lemma price_high_trans:
  "\<forall>(a :: product) (b :: product) (c :: product). price b - price a \<le> 0 \<longrightarrow> price c - price b \<le> 0 \<longrightarrow>
     price c - price a \<le> 0"
  by auto

lemma sorted_price_low:
  "sorted_wrt (\<lambda>a b. price a \<le> price b) (array_sort (\<lambda>a b. price a - price b) (xs :: product list))"
  using sorted_array_sort [of "\<lambda>a b. price a - price b" xs, OF price_low_total price_low_trans]
  by simp

lemma sorted_price_high:
  "sorted_wrt (\<lambda>a b. price b \<le> price a) (array_sort (\<lambda>a b. price b - price a) (xs :: product list))"
  using sorted_array_sort [of "\<lambda>a b. price b - price a" xs, OF price_high_total price_high_trans]
  by simp

lemma stable_price_low:
  "filter (\<lambda>p. price p = k) (array_sort (\<lambda>a b. price a - price b) xs) =
   filter (\<lambda>p. price p = k) (xs :: product list)"
  using stable_array_sort [of "\<lambda>p. price p = k" "\<lambda>a b. price a - price b" xs] by simp

lemma stable_price_high:
  "filter (\<lambda>p. price p = k) (array_sort (\<lambda>a b. price b - price a) xs) =
   filter (\<lambda>p. price p = k) (xs :: product list)"
  using stable_array_sort [of "\<lambda>p. price p = k" "\<lambda>a b. price b - price a" xs] by simp

lemma sort_switch_idem:
  assumes "consistent_comparator (localeCompare h)"
  shows "sort_switch h key (sort_switch h key xs) = sort_switch h key xs"
proof -
  have 1: "array_sort (\<lambda>a b. price a - price b) (array_sort (\<lambda>a b. price a - price b) xs) =
           array_sort (\<lambda>a b. price a - price b) xs"
    by (rule array_sort_sorted_id)
       (rule sorted_array_sort [of "\<lambda>a b. price a - price b" xs,
          OF price_low_total price_low_trans])
  have 2: "array_sort (\<lambda>a b. price b - price a) (array_sort (\<lambda>a b. price b - price a) xs) =
           array_sort (\<lambda>a b. price b - price a) xs"
    by (rule array_sort_sorted_id)
       (rule sorted_array_sort [of "\<lambda>a b. price b - price a" xs,
          OF price_high_total price_high_trans])
  have 3: "array_sort (\<lambda>a b. localeCompare h (name a) (name b))
             (array_sort (\<lambda>a b. localeCompare h (name a) (name b)) xs) =
           array_sort (\<lambda>a b. localeCompare h (name a) (name b)) xs"
    by (rule array_sort_sorted_id) (rule sorted_by_name [OF assms])
  from 1 2 3 show ?thesis by (simp add: sort_switch_def)
qed

lemma set_sort_switch: "set (sort_switch h key xs) = set xs"
  by (metis mset_sort_switch set_mset_mset)

lemma filter_sort_switch_filter:
  "filter P (sort_switch h key (filter P xs)) = sort_switch h key (filter P xs)"
  by (rule filter_True) (simp add: set_sort_switch)

lemma demo_host_consistent: "consistent_comparator (localeCompare demo_host)"
  by (simp add: demo_host_def consistent_bytewise_compare)

section \<open>Numbers as text\<close>

lemma of_char_digit_char: "d < 10 \<Longrightarrow> (of_char (digit_char d) :: nat) = 48 + d"
  by (simp add: digit_char_def)

lemma digitValue_digit_char: "d < 10 \<Longrightarrow> digitValue 10 (digit_char d) = Some d"
  by (simp add: digitValue_def of_char_digit_char)

lemma decimal_digit_iff: "(digitValue 10 c \<noteq> None) = (48 \<le> (of_char c :: nat) \<and> (of_char c :: nat) \<le> 57)"
  by (auto simp: digitValue_def Let_def)

lemma decimal_digit_iff': "(\<exists>y. digitValue 10 c = Some y) = (48 \<le> (of_char c :: nat) \<and> (of_char c :: nat) \<le> 57)"
  using decimal_digit_iff [of c] by simp

lemma is_decimal_digits: "is_decimal (digits n)"
proof (induction n rule: digits.induct)
  case (1 n)
  show ?case
  proof (cases "n < 10")
    case True
    then show ?thesis
      by (subst digits.simps) (simp add: is_decimal_def digitValue_digit_char)
  next
    case False
    with 1 have "is_decimal (digits (n div 10))" by simp
    moreover have "digitValue 10 (digit_char (n mod 10)) \<noteq> None"
      by (simp add: digitValue_digit_char)
    ultimately show ?thesis using False
      by (subst digits.simps) (simp add: is_decimal_def)
  qed
qed

lemma decimal_value_digits: "decimal_value (digits n) = n"
proof (induction n rule: digits.induct)
  case (1 n)
  show ?case
  proof (cases "n < 10")
    case True
    then show ?thesis
      by (subst digits.simps) (simp add: decimal_value_def digitValue_digit_char)
  next
    case False
    with 1 have "decimal_value (digits (n div 10)) = n div 10" by simp
    with False show ?thesis
      by (subst digits.simps) (simp add: decimal_value_def digitValue_digit_char)
  qed
qed

lemma whiteSpaceLength_plain:
  assumes "(of_char c :: nat) \<notin> {0x09, 0x0A, 0x0B, 0x0C, 0x0D, 0x20}" and "(of_char c :: nat) < 0xC2"
  shows "whiteSpaceLength (c # r) = 0"
proof (cases r)
  case Nil
  with assms show ?thesis by (simp add: whiteSpaceLength_def)
next
  case r: (Cons b r')
  show ?thesis
  proof (cases r')
    case Nil
    with r assms show ?thesis by (simp add: whiteSpaceLength_def)
  next
    case (Cons a r'')
    with r assms show ?thesis by (simp add: whiteSpaceLength_def)
  qed
qed

lemma skipWhiteSpace_plain:
  assumes "(of_char c :: nat) \<notin> {0x09, 0x0A, 0x0B, 0x0C, 0x0D, 0x20}" and "(of_char c :: nat) < 0xC2"
  shows "skipWhiteSpace (c # r) = c # r"
  using whiteSpaceLength_plain [OF assms, of r] by (subst skipWhiteSpace.simps) simp

lemma toDouble_exact: "m \<le> 2 ^ 53 \<Longrightarrow> toDouble m = Some m"
  by (simp add: toDouble_def)

lemma parseInt_decimal:
  assumes "is_decimal s" and "decimal_value s \<le> 2 ^ 53"
  shows "parseInt s = Num (int (decimal_value s))"
    and "parseInt (CHR ''-'' # s) = Num (- int (decimal_value s))"
proof -
  from assms(1) obtain c cs where s: "s = c # cs" by (cases s) (auto simp: is_decimal_def)
  from assms(1) have all: "\<forall>c \<in> set s. 48 \<le> (of_char c :: nat) \<and> (of_char c :: nat) \<le> 57"
    by (simp add: is_decimal_def list_all_iff decimal_digit_iff')
  with s have c: "48 \<le> (of_char c :: nat)" "(of_char c :: nat) \<le> 57" by auto
  have tw: "takeWhile (\<lambda>c. digitValue 10 c \<noteq> None) s = s"
    using assms(1) by (simp add: is_decimal_def list_all_iff)
  have nox: "take 2 s \<noteq> ''0x''" "take 2 s \<noteq> ''0X''"
  proof -
    show "take 2 s \<noteq> ''0x''"
    proof
      assume "take 2 s = ''0x''"
      then have "CHR ''x'' \<in> set (take 2 s)" by simp
      then have "CHR ''x'' \<in> set s" by (rule in_set_takeD)
      with all have "(of_char (CHR ''x'') :: nat) \<le> 57" by blast
      then show False by simp
    qed
    show "take 2 s \<noteq> ''0X''"
    proof
      assume "take 2 s = ''0X''"
      then have "CHR ''X'' \<in> set (take 2 s)" by simp
      then have "CHR ''X'' \<in> set s" by (rule in_set_takeD)
      with all have "(of_char (CHR ''X'') :: nat) \<le> 57" by blast
      then show False by simp
    qed
  qed
  have sk: "skipWhiteSpace s = s"
    unfolding s using c by (intro skipWhiteSpace_plain) auto
  have cm: "c \<noteq> CHR ''-''" and cp: "c \<noteq> CHR ''+''"
    using c by auto
  have sg: "(case s of [] \<Rightarrow> (1 :: int, s)
             | c # r \<Rightarrow> if c = CHR ''-'' then (- 1, r)
                        else if c = CHR ''+'' then (1, r) else (1, s)) = (1, s)"
    using cm cp by (simp add: s)
  have rx: "(if take 2 s = ''0x'' \<or> take 2 s = ''0X'' then (16 :: nat, drop 2 s) else (10, s)) = (10, s)"
    using nox by simp
  have ne: "s \<noteq> []" using s by simp
  have td: "toDouble (foldl (\<lambda>acc c. acc * 10 + the (digitValue 10 c)) 0 s) = Some (decimal_value s)"
    using toDouble_exact [OF assms(2)] by (simp add: decimal_value_def)
  show "parseInt s = Num (int (decimal_value s))"
    unfolding parseInt_def sk Let_def sg rx prod.case tw td using ne by simp
  have sk': "skipWhiteSpace (CHR ''-'' # s) = CHR ''-'' # s"
    by (intro skipWhiteSpace_plain) simp_all
  have sg': "(case CHR ''-'' # s of [] \<Rightarrow> (1 :: int, CHR ''-'' # s)
             | c # r \<Rightarrow> if c = CHR ''-'' then (- 1, r)
                        else if c = CHR ''+'' then (1, r) else (1, CHR ''-'' # s)) = (- 1, s)"
    by simp
  show "parseInt (CHR ''-'' # s) = Num (- int (decimal_value s))"
    unfolding parseInt_def sk' Let_def sg' rx prod.case tw td using ne by simp
qed

lemma parseInt_well_formed:
  assumes "well_formed_integer v" and "\<bar>identifier_value v\<bar> \<le> 2 ^ 53"
  shows "parseInt v = Num (identifier_value v)"
proof (cases "is_decimal v")
  case True
  then obtain c cs where v: "v = c # cs" by (cases v) (auto simp: is_decimal_def)
  from True v have "48 \<le> (of_char c :: nat)"
    by (simp add: is_decimal_def decimal_digit_iff')
  then have "c \<noteq> CHR ''-''" by auto
  with v have iv: "identifier_value v = int (decimal_value v)"
    by (simp add: identifier_value_def)
  with assms(2) have "decimal_value v \<le> 2 ^ 53" by simp
  from parseInt_decimal(1) [OF True this] iv show ?thesis by simp
next
  case False
  with assms(1) obtain s where v: "v = CHR ''-'' # s" and s: "is_decimal s"
    by (cases v) (auto simp: well_formed_integer_def)
  then have iv: "identifier_value v = - int (decimal_value s)"
    by (simp add: identifier_value_def)
  with assms(2) have "decimal_value s \<le> 2 ^ 53" by simp
  from parseInt_decimal(2) [OF s this] iv v show ?thesis by simp
qed

lemma parseInt_toString:
  assumes "\<bar>n\<bar> \<le> 2 ^ 53"
  shows "parseInt (toString h (Num n)) = Num n"
proof -
  from assms have b: "nat \<bar>n\<bar> \<le> 2 ^ 53" by simp
  have d: "decimal_value (digits (nat \<bar>n\<bar>)) \<le> 2 ^ 53"
    using b by (simp only: decimal_value_digits)
  show ?thesis
  proof (cases "n < 0")
    case True
    with b parseInt_decimal(2) [OF is_decimal_digits d] show ?thesis
      by (simp add: toString_def decimal_value_digits)
  next
    case False
    with b parseInt_decimal(1) [OF is_decimal_digits d] show ?thesis
      by (simp add: toString_def decimal_value_digits)
  qed
qed

lemma getById_None:
  "\<bar>n\<bar> \<le> 2 ^ 53 \<Longrightarrow>
   (getById h m (Num n) = None) = (\<forall>p \<in> set (products m). prod_id p \<noteq> n)"
  by (auto simp: getById_def parseInt_toString find_None_iff)

lemma loadProducts_Inr: "\<exists>r m'. loadProducts h fetch m = Inr (r, m')"
  by (cases "loadProducts_try h fetch m") (auto simp: loadProducts_def)

lemmas parseInt_eval =
  parseInt_def skipWhiteSpace.simps whiteSpaceLength_def digitValue_def toDouble_def
  bitLength.simps Let_def

lemma parseInt_null: "parseInt ''null'' = NaN"
  by (simp add: parseInt_eval)

lemma detailHTML_demo: "\<exists>d. detailHTML demo_host p = Inr d"
  by (simp add: detailHTML_def demo_host_def)

lemma relatedCards_demo: "\<exists>r. relatedCards demo_host ps = Inr r"
proof (induction ps)
  case Nil
  show ?case by simp
next
  case (Cons p ps)
  have "\<exists>c. relatedProductCard demo_host p = Inr c"
    by (simp add: relatedProductCard_def demo_host_def)
  with Cons show ?case by auto
qed

lemma displayRelatedProducts_demo: "\<exists>r. displayRelatedProducts demo_host ps p = Inr r"
  using relatedCards_demo by (simp add: displayRelatedProducts_def Let_def)

section \<open>The probing loops and the carousel items\<close>

lemma try_extensions_fst:
  "fst (try_extensions h enc i exts att) =
     map_option (candidate_url h enc i) (find (\<lambda>ext. loadImage h (candidate_url h enc i ext)) exts)"
  by (induction exts arbitrary: att) (simp_all add: Let_def)

lemma try_extensions_attempts:
  "set (snd (try_extensions h enc i exts att)) \<subseteq> set att \<union> candidate_url h enc i ` set exts"
proof (induction exts arbitrary: att)
  case Nil
  show ?case by simp
next
  case (Cons ext exts)
  from Cons [of "att @ [candidate_url h enc i ext]"] show ?case
    by (auto simp: Let_def)
qed

lemma probe_loop_fst:
  "i \<le> Suc MAX_IMAGES \<Longrightarrow>
   fst (probe_loop h enc i urls att) =
     urls @ map (\<lambda>i. candidate_url h enc i (the (first_loading_ext h enc i)))
              (takeWhile (\<lambda>i. first_loading_ext h enc i \<noteq> None) [i ..< Suc MAX_IMAGES])"
proof (induction h enc i urls att rule: probe_loop.induct)
  case (1 h enc i urls att)
  show ?case
  proof (cases "i \<le> MAX_IMAGES")
    case False
    with 1(2) have "i = Suc MAX_IMAGES" by simp
    then show ?thesis by (subst probe_loop.simps) simp
  next
    case True
    then have upt: "[i ..< Suc MAX_IMAGES] = i # [Suc i ..< Suc MAX_IMAGES]"
      by (simp add: upt_conv_Cons)
    obtain r att' where t: "try_extensions h enc i EXTENSIONS att = (r, att')"
      by (cases "try_extensions h enc i EXTENSIONS att")
    with try_extensions_fst [of h enc i EXTENSIONS att]
    have r: "r = map_option (candidate_url h enc i) (first_loading_ext h enc i)"
      by (simp add: first_loading_ext_def)
    show ?thesis
    proof (cases "first_loading_ext h enc i")
      case None
      with r t True upt show ?thesis by (subst probe_loop.simps) simp
    next
      case (Some ext)
      with r have r': "r = Some (candidate_url h enc i ext)" by simp
      from True have "Suc i \<le> Suc MAX_IMAGES" by simp
      with 1(1) [OF True t [symmetric, unfolded r'] refl] 
      have "fst (probe_loop h enc (Suc i) (urls @ [candidate_url h enc i ext]) att') =
            (urls @ [candidate_url h enc i ext]) @
            map (\<lambda>i. candidate_url h enc i (the (first_loading_ext h enc i)))
              (takeWhile (\<lambda>i. first_loading_ext h enc i \<noteq> None) [Suc i ..< Suc MAX_IMAGES])"
        by simp
      with Some t r' True upt show ?thesis by (subst probe_loop.simps) simp
    qed
  qed
qed

lemma probe_loop_attempts:
  "set (snd (probe_loop h enc i urls att)) \<subseteq>
     set att \<union> {candidate_url h enc j ext | j ext. i \<le> j \<and> j \<le> MAX_IMAGES \<and> ext \<in> set EXTENSIONS}"
proof (induction h enc i urls att rule: probe_loop.induct)
  case (1 h enc i urls att)
  define C where "C k = {candidate_url h enc j ext | j ext.
                          k \<le> j \<and> j \<le> MAX_IMAGES \<and> ext \<in> set EXTENSIONS}" for k
  show ?case unfolding C_def [symmetric]
  proof (cases "i \<le> MAX_IMAGES")
    case False
    then show "set (snd (probe_loop h enc i urls att)) \<subseteq> set att \<union> C i"
      by (subst probe_loop.simps) simp
  next
    case True
    obtain r att' where t: "try_extensions h enc i EXTENSIONS att = (r, att')"
      by (cases "try_extensions h enc i EXTENSIONS att")
    with try_extensions_attempts [of h enc i EXTENSIONS att]
    have a: "set att' \<subseteq> set att \<union> candidate_url h enc i ` set EXTENSIONS" by simp
    have b: "candidate_url h enc i ` set EXTENSIONS \<subseteq> C i"
      unfolding C_def using True by blast
    from a b have ab: "set att' \<subseteq> set att \<union> C i" by blast
    show "set (snd (probe_loop h enc i urls att)) \<subseteq> set att \<union> C i"
    proof (cases r)
      case None
      with ab t True show ?thesis by (subst probe_loop.simps) simp
    next
      case (Some url)
      have c: "C (Suc i) \<subseteq> C i"
        unfolding C_def using Suc_leD by blast
      from 1 [OF True t [symmetric, unfolded Some] refl]
      have "set (snd (probe_loop h enc (Suc i) (urls @ [url]) att')) \<subseteq> set att' \<union> C (Suc i)"
        unfolding C_def .
      with ab c have "set (snd (probe_loop h enc (Suc i) (urls @ [url]) att')) \<subseteq> set att \<union> C i"
        by blast
      with Some t True show ?thesis by (subst probe_loop.simps) simp
    qed
  qed
qed

lemma length_expected_urls: "length (expected_urls h enc) \<le> MAX_IMAGES"
proof -
  have "length (expected_urls h enc) \<le> length [1 ..< Suc MAX_IMAGES]"
    unfolding expected_urls_def length_map by (rule length_takeWhile_le)
  moreover have "length [1 ..< Suc MAX_IMAGES] = MAX_IMAGES"
    by (simp del: upt_Suc)
  ultimately show ?thesis by simp
qed

lemma expected_urls_three:
  assumes "first_loading_ext h enc 1 = Some e1" "first_loading_ext h enc 2 = Some e2"
    "first_loading_ext h enc 3 = Some e3" "first_loading_ext h enc 4 = None"
  shows "expected_urls h enc =
           [candidate_url h enc 1 e1, candidate_url h enc 2 e2, candidate_url h enc 3 e3]"
proof -
  have "[1 ..< Suc MAX_IMAGES] = 1 # 2 # 3 # 4 # [5 ..< Suc MAX_IMAGES]"
    by (simp add: MAX_IMAGES_def upt_conv_Cons)
  with assms show ?thesis by (simp add: expected_urls_def)
qed


section \<open>Escaping, character by character\<close>

lemma replaceAll_single:
  "replaceAll [c] rep s = concat (map (\<lambda>x. if x = c then rep else [x]) s)"
  by (induction s) auto

lemma replaceAll_single_append:
  "replaceAll [c] rep (a @ b) = replaceAll [c] rep a @ replaceAll [c] rep b"
  by (simp add: replaceAll_single)

lemma escapeHtml_Nil: "escapeHtml [] = []"
  by (simp add: escapeHtml_def)

lemma escapeHtml_Cons: "escapeHtml (c # s) = escape_char c @ escapeHtml s"
proof -
  have 1: "replaceAll ''&'' ''&amp;'' (c # s) =
           (if c = CHR ''&'' then ''&amp;'' else [c]) @ replaceAll ''&'' ''&amp;'' s"
    by simp
  show ?thesis
    unfolding escapeHtml_def 1 replaceAll_single_append
    by (simp add: escape_char_def)
qed

lemma escapeHtml_concat: "escapeHtml s = concat (map escape_char s)"
  by (induction s) (simp_all add: escapeHtml_Nil escapeHtml_Cons)

lemma escape_char_no_markup: "\<forall>x \<in> set (escape_char c). \<not> markup_char x"
  by (simp add: escape_char_def markup_char_def)

lemma escapeHtml_no_markup: "\<forall>x \<in> set (escapeHtml s). \<not> markup_char x"
  using escape_char_no_markup by (auto simp: escapeHtml_concat)

lemma entity_at_append_left:
  assumes "entity_at a i"
  shows "entity_at (a @ b) i"
proof -
  from assms obtain e where e: "e \<in> set entities" "take (length e) (drop i a) = e"
    by (auto simp: entity_at_def list_ex_iff)
  from arg_cong [OF e(2), of length]
  have "min (length (drop i a)) (length e) = length e"
    by (simp only: length_take)
  then have "length e \<le> length (drop i a)"
    by (simp add: min_def split: if_splits)
  with e(2) have "take (length e) (drop i (a @ b)) = e" by simp
  with e(1) show ?thesis by (auto simp: entity_at_def list_ex_iff)
qed

lemma entity_at_append_right:
  assumes "entity_at b j"
  shows "entity_at (a @ b) (length a + j)"
  using assms by (simp add: entity_at_def)

lemma amp_ok_append:
  assumes "amp_ok a" and "amp_ok b"
  shows "amp_ok (a @ b)"
  unfolding amp_ok_def
proof (intro allI impI)
  fix i
  assume i: "i < length (a @ b)" and amp: "(a @ b) ! i = CHR ''&''"
  show "entity_at (a @ b) i"
  proof (cases "i < length a")
    case True
    with amp have "a ! i = CHR ''&''" by (simp add: nth_append)
    with True assms(1) have "entity_at a i" by (simp add: amp_ok_def)
    then show ?thesis by (rule entity_at_append_left)
  next
    case False
    then obtain j where j: "i = length a + j" using le_Suc_ex by (metis not_less)
    with i amp have "j < length b" "b ! j = CHR ''&''" by (simp_all add: nth_append)
    with assms(2) have "entity_at b j" by (simp add: amp_ok_def)
    then show ?thesis unfolding j by (rule entity_at_append_right)
  qed
qed

lemma amp_ok_entity:
  "amp_ok ''&amp;''" "amp_ok ''&lt;''" "amp_ok ''&gt;''" "amp_ok ''&quot;''" "amp_ok ''&#039;''"
  by (simp_all add: amp_ok_def entity_at_def entities_def less_Suc_eq nth_Cons' numeral_nat
      all_conj_distrib)

lemma amp_ok_escape_char: "amp_ok (escape_char c)"
  by (simp add: escape_char_def amp_ok_entity) (simp add: amp_ok_def)

lemma amp_ok_escapeHtml: "amp_ok (escapeHtml s)"
  by (induction s)
     (simp_all add: escapeHtml_Nil escapeHtml_Cons amp_ok_append amp_ok_escape_char, simp add: amp_ok_def)

lemma slots_peel:
  assumes "\<exists>pre mid post. \<forall>n d. f n d = pre @ escapeHtml n @ mid @ escapeHtml d @ post"
  shows "\<exists>pre mid post. \<forall>n d. x @ f n d = pre @ escapeHtml n @ mid @ escapeHtml d @ post"
proof -
  from assms obtain pre mid post
    where "\<forall>n d. f n d = pre @ escapeHtml n @ mid @ escapeHtml d @ post" by blast
  then have "\<forall>n d. x @ f n d = (x @ pre) @ escapeHtml n @ mid @ escapeHtml d @ post" by simp
  then show ?thesis by blast
qed

lemma slot_peel:
  assumes "\<exists>mid post. \<forall>d. g d = mid @ escapeHtml d @ post"
  shows "\<exists>mid post. \<forall>d. x @ g d = mid @ escapeHtml d @ post"
proof -
  from assms obtain mid post where "\<forall>d. g d = mid @ escapeHtml d @ post" by blast
  then have "\<forall>d. x @ g d = (x @ mid) @ escapeHtml d @ post" by simp
  then show ?thesis by blast
qed

lemma slot_last: "\<exists>mid post. \<forall>d. escapeHtml d @ z = mid @ escapeHtml d @ post"
proof -
  have "\<forall>d. escapeHtml d @ z = [] @ escapeHtml d @ z" by simp
  then show ?thesis by blast
qed

lemma slots_first:
  assumes "\<exists>mid post. \<forall>d. g d = mid @ escapeHtml d @ post"
  shows "\<exists>pre mid post. \<forall>n d. escapeHtml n @ g d = pre @ escapeHtml n @ mid @ escapeHtml d @ post"
proof -
  from assms obtain mid post where "\<forall>d. g d = mid @ escapeHtml d @ post" by blast
  then have "\<forall>n d. escapeHtml n @ g d = [] @ escapeHtml n @ mid @ escapeHtml d @ post" by simp
  then show ?thesis by blast
qed

lemma fields_after_update:
  "prod_id (p\<lparr>name := n, description := d\<rparr>) = prod_id p"
  "name (p\<lparr>name := n, description := d\<rparr>) = n"
  "description (p\<lparr>name := n, description := d\<rparr>) = d"
  "details (p\<lparr>name := n, description := d\<rparr>) = details p"
  "category (p\<lparr>name := n, description := d\<rparr>) = category p"
  "price (p\<lparr>name := n, description := d\<rparr>) = price p"
  "icon (p\<lparr>name := n, description := d\<rparr>) = icon p"
  by simp_all

lemma embeds_createProductCard:
  assumes "encodeURIComponent h (or_else (icon p) []) = Some folder"
  shows "embeds_escaped createProductCard h p"
  unfolding embeds_escaped_def createProductCard_def
  apply (simp only: fields_after_update assms option.case sum.inject)
  apply (intro slots_peel)
  apply (rule slots_first)
  apply (intro slot_peel)
  apply (rule slot_last)
  done

lemma embeds_UIManager_createProductCard:
  assumes "encodeURIComponent h (or_else (icon p) []) = Some folder"
  shows "embeds_escaped UIManager_createProductCard h p"
  unfolding embeds_escaped_def UIManager_createProductCard_def
  apply (simp only: fields_after_update assms option.case sum.inject)
  apply (intro slots_peel)
  apply (rule slots_first)
  apply (intro slot_peel)
  apply (rule slot_last)
  done

lemma embeds_detailHTML:
  assumes "encodeURIComponent h (or_else (icon p) []) = Some folder"
  shows "embeds_escaped detailHTML h p"
  unfolding embeds_escaped_def detailHTML_def
  apply (simp only: fields_after_update assms option.case sum.inject)
  apply (intro slots_peel)
  apply (rule slots_first)
  apply (intro slot_peel)
  apply (rule slot_last)
  done

lemma embeds_relatedProductCard:
  assumes "encodeURIComponent h (or_else (icon p) []) = Some folder"
  shows "embeds_escaped relatedProductCard h p"
  unfolding embeds_escaped_def relatedProductCard_def
  apply (simp only: fields_after_update assms option.case sum.inject)
  apply (intro slots_peel)
  apply (rule slots_first)
  apply (intro slot_peel)
  apply (rule slot_last)
  done

section \<open>Where the templates put the category\<close>

lemma includes_js_peel: "includes_js y q \<Longrightarrow> includes_js (x @ y) q"
  unfolding includes_js_iff is_substring_def
proof -
  assume "\<exists>pre post. y = pre @ q @ post"
  then obtain pre post where "y = pre @ q @ post" by blast
  then have "x @ y = (x @ pre) @ q @ post" by simp
  then show "\<exists>pre post. x @ y = pre @ q @ post" by blast
qed

lemma includes_js_slot: "includes_js (a @ b @ c @ rest) (a @ b @ c)"
  unfolding includes_js_iff is_substring_def
proof -
  have "a @ b @ c @ rest = [] @ (a @ b @ c) @ rest" by simp
  then show "\<exists>pre post. a @ b @ c @ rest = pre @ (a @ b @ c) @ post" by blast
qed

lemma UIManager_createProductCard_category:
  assumes "encodeURIComponent h (or_else (icon p) []) = Some folder"
  shows \<open>html_includes (UIManager_createProductCard h p)
           (''<span class="product-category">'' @ or_else (category p) ''Medicine'' @ ''</span>'')\<close>
  unfolding html_includes_def UIManager_createProductCard_def
  apply (simp only: assms option.case sum.case)
  apply (rule includes_js_slot | rule includes_js_peel)+
  done

lemma createProductCard_category:
  assumes "encodeURIComponent h (or_else (icon p) []) = Some folder"
  shows \<open>html_includes (createProductCard h p)
           (''<span class="product-category">'' @ escapeHtml (or_else (category p) ''Medicine'') @
            ''</span>'')\<close>
  unfolding html_includes_def createProductCard_def
  apply (simp only: assms option.case sum.case)
  apply (rule includes_js_slot | rule includes_js_peel)+
  done

lemma relatedProductCard_category:
  assumes "encodeURIComponent h (or_else (icon p) []) = Some folder"
  shows \<open>html_includes (relatedProductCard h p)
           (''<span class="product-category">'' @ escapeHtml (or_else (category p) ''Medicine'') @
            ''</span>'')\<close>
  unfolding html_includes_def relatedProductCard_def
  apply (simp only: assms option.case sum.case)
  apply (rule includes_js_slot | rule includes_js_peel)+
  done

lemma detailHTML_category:
  assumes "encodeURIComponent h (or_else (icon p) []) = Some folder"
  shows \<open>html_includes (detailHTML h p)
           (''<span class="meta-value" style="text-transform: capitalize;">'' @
            escapeHtml (or_else (category p) ''Medicine'') @ ''</span>'')\<close>
  unfolding html_includes_def detailHTML_def
  apply (simp only: assms option.case sum.case)
  apply (rule includes_js_slot | rule includes_js_peel)+
  done

lemma tainted_texts:
  "encodeURIComponent demo_host (or_else (icon tainted) []) = Some ''zinc''"
  "toString demo_host (Num (prod_id tainted)) = ''2''"
  "or_else (category tainted) ''Medicine'' = ''<img src=x onerror=alert(1)>''"
  "escapeHtml ''<img src=x onerror=alert(1)>'' = ''&lt;img src=x onerror=alert(1)&gt;''"
proof -
  show "encodeURIComponent demo_host (or_else (icon tainted) []) = Some ''zinc''"
    by code_simp
  have "digits 2 = ''2''" by code_simp
  then show "toString demo_host (Num (prod_id tainted)) = ''2''"
    by (simp add: tainted_def zinc_def toString_def)
  show "or_else (category tainted) ''Medicine'' = ''<img src=x onerror=alert(1)>''"
    by (simp add: tainted_def or_else_def)
  show "escapeHtml ''<img src=x onerror=alert(1)>'' = ''&lt;img src=x onerror=alert(1)&gt;''"
    by (simp add: escapeHtml_def)
qed

section \<open>The catalog load\<close>

text \<open>
  Claim C7. For every fetch outcome \<open>loadProducts\<close> returns to its caller (its result is
  never an error), and when the fetch fails or the response has a non-success status the
  error is logged and the result is the empty product list, the stored catalog unchanged.
\<close>

theorem loadProducts_never_raises:
  "(\<exists>r m'. loadProducts h fetch m = Inr (r, m')) \<and>
   (fetch (productsPath h) = None \<or> (\<exists>resp. fetch (productsPath h) = Some resp \<and> \<not> ok resp)
      \<longrightarrow> (\<exists>e. loadProducts h fetch m =
                 Inr ([], m\<lparr>console := console m @ [ErrorFailedToLoad e]\<rparr>)))"
proof (intro conjI impI)
  show "\<exists>r m'. loadProducts h fetch m = Inr (r, m')"
    by (cases "loadProducts_try h fetch m") (auto simp: loadProducts_def)
next
  assume "fetch (productsPath h) = None \<or> (\<exists>resp. fetch (productsPath h) = Some resp \<and> \<not> ok resp)"
  then have "\<exists>e. loadProducts_try h fetch m = Inl e"
    by (auto simp: loadProducts_try_def)
  then show "\<exists>e. loadProducts h fetch m = Inr ([], m\<lparr>console := console m @ [ErrorFailedToLoad e]\<rparr>)"
    by (auto simp: loadProducts_def)
qed

theorem loadProducts_never_raises_witness:
  "demo_fetch (productsPath (demo_host\<lparr>pathname := ''/products/index.html''\<rparr>)) =
     Some \<lparr>ok = False, status = 404, json = None\<rparr> \<and>
   (\<exists>e. loadProducts (demo_host\<lparr>pathname := ''/products/index.html''\<rparr>) demo_fetch demo_manager =
     Inr ([], demo_manager\<lparr>console := console demo_manager @ [ErrorFailedToLoad e]\<rparr>))"
proof -
  let ?h = "demo_host\<lparr>pathname := ''/products/index.html''\<rparr>"
  have p: "demo_fetch (productsPath ?h) = Some \<lparr>ok = False, status = 404, json = None\<rparr>"
    by (simp add: productsPath_def demo_fetch_def demo_host_def)
  then have "demo_fetch (productsPath ?h) = None \<or>
             (\<exists>resp. demo_fetch (productsPath ?h) = Some resp \<and> \<not> ok resp)"
    by simp
  with loadProducts_never_raises [of ?h demo_fetch demo_manager] p show ?thesis
    by blast
qed

section \<open>The image prober\<close>

text \<open>
  Claim C8. For a folder identifier that is empty, or that decodes and trims to the empty
  string, \<open>probeImages\<close> returns the empty sequence and has attempted no image load.
\<close>

theorem probeImages_empty_folder:
  "folder = [] \<or> (\<exists>d. decodeURIComponent h folder = Some d \<and> trim h d = [])
     \<Longrightarrow> probeImages h folder = Inr ([], [])"
  by (auto simp: probeImages_def)

theorem probeImages_empty_folder_witness:
  "decodeURIComponent demo_host ''%20%09'' = Some [CHR 0x20, CHR 0x09] \<and>
   trim demo_host [CHR 0x20, CHR 0x09] = [] \<and>
   probeImages demo_host ''%20%09'' = Inr ([], []) \<and>
   probeImages demo_host [] = Inr ([], [])"
proof -
  have d: "decodeURIComponent demo_host ''%20%09'' = Some [CHR 0x20, CHR 0x09]"
    by code_simp
  have t: "trim demo_host [CHR 0x20, CHR 0x09] = []"
    by (simp add: demo_host_def ascii_trim_def isWhiteSpace_def)
  from d t probeImages_empty_folder [of "''%20%09''" demo_host]
       probeImages_empty_folder [of "[]" demo_host]
  show ?thesis by blast
qed

text \<open>
  Claim C3, amended. For every folder identifier that is not empty, that
  \<open>decodeURIComponent\<close> accepts, whose decoded and trimmed text is not empty and is accepted
  by \<open>encodeURIComponent\<close>, and for every way the images load, \<open>probeImages\<close> returns, in
  ascending index order, one URL for each index from 1 up to the first index at which no
  extension loads, each with the first extension in the order jpeg, jpg, png whose
  candidate URL loads; it attempts no URL outside the indices 1 to 12, so it returns at
  most 12 URLs; with images at the indices 1, 2 and 3 and none at 4 it returns exactly
  three.
\<close>

theorem probeImages_first_extensions:
  assumes "folder \<noteq> []" and "decodeURIComponent h folder = Some d" and "trim h d \<noteq> []"
    and "encodeURIComponent h (trim h d) = Some e"
  shows "\<exists>attempts.
           probeImages h folder = Inr (expected_urls h (replaceAll ''%2F'' ''/'' e), attempts) \<and>
           set attempts \<subseteq> {candidate_url h (replaceAll ''%2F'' ''/'' e) i ext | i ext.
                              1 \<le> i \<and> i \<le> 12 \<and> ext \<in> set [''jpeg'', ''jpg'', ''png'']} \<and>
           length (expected_urls h (replaceAll ''%2F'' ''/'' e)) \<le> 12 \<and>
           (\<forall>e1 e2 e3.
              first_loading_ext h (replaceAll ''%2F'' ''/'' e) 1 = Some e1 \<and>
              first_loading_ext h (replaceAll ''%2F'' ''/'' e) 2 = Some e2 \<and>
              first_loading_ext h (replaceAll ''%2F'' ''/'' e) 3 = Some e3 \<and>
              first_loading_ext h (replaceAll ''%2F'' ''/'' e) 4 = None \<longrightarrow>
              expected_urls h (replaceAll ''%2F'' ''/'' e) =
                [candidate_url h (replaceAll ''%2F'' ''/'' e) 1 e1,
                 candidate_url h (replaceAll ''%2F'' ''/'' e) 2 e2,
                 candidate_url h (replaceAll ''%2F'' ''/'' e) 3 e3])"
proof -
  let ?enc = "replaceAll ''%2F'' ''/'' e"
  obtain urls attempts where p: "probe_loop h ?enc 1 [] [] = (urls, attempts)"
    by (cases "probe_loop h ?enc 1 [] []")
  from probe_loop_fst [of 1 h ?enc "[]" "[]"] p
  have u: "urls = expected_urls h ?enc" by (simp add: expected_urls_def)
  from probe_loop_attempts [of h ?enc 1 "[]" "[]"] p
  have a: "set attempts \<subseteq> {candidate_url h ?enc i ext | i ext.
             1 \<le> i \<and> i \<le> 12 \<and> ext \<in> set [''jpeg'', ''jpg'', ''png'']}"
    by (simp add: MAX_IMAGES_def EXTENSIONS_def)
  from assms p u have r: "probeImages h folder = Inr (expected_urls h ?enc, attempts)"
    by (simp add: probeImages_def)
  have l: "length (expected_urls h ?enc) \<le> 12"
    using length_expected_urls [of h ?enc] by (simp add: MAX_IMAGES_def)
  from r a l expected_urls_three [of h ?enc] show ?thesis by blast
qed

theorem probeImages_first_extensions_witness:
  "''amlo'' \<noteq> [] \<and> decodeURIComponent demo_host ''amlo'' = Some ''amlo'' \<and>
   trim demo_host ''amlo'' \<noteq> [] \<and>
   encodeURIComponent demo_host (trim demo_host ''amlo'') = Some ''amlo'' \<and>
   first_loading_ext demo_host ''amlo'' 1 = Some ''jpeg'' \<and>
   first_loading_ext demo_host ''amlo'' 2 = Some ''png'' \<and>
   first_loading_ext demo_host ''amlo'' 3 = Some ''jpg'' \<and>
   first_loading_ext demo_host ''amlo'' 4 = None \<and>
   (\<exists>attempts. probeImages demo_host ''amlo'' =
      Inr ([''amlo/1.jpeg'', ''amlo/2.png'', ''amlo/3.jpg''], attempts))"
proof -
  have d: "decodeURIComponent demo_host ''amlo'' = Some ''amlo''" by code_simp
  have t: "trim demo_host ''amlo'' = ''amlo''" by code_simp
  have e: "encodeURIComponent demo_host ''amlo'' = Some ''amlo''" by code_simp
  have r: "replaceAll ''%2F'' ''/'' ''amlo'' = ''amlo''" by simp
  have f: "first_loading_ext demo_host ''amlo'' 1 = Some ''jpeg''"
    "first_loading_ext demo_host ''amlo'' 2 = Some ''png''"
    "first_loading_ext demo_host ''amlo'' 3 = Some ''jpg''"
    "first_loading_ext demo_host ''amlo'' 4 = None"
    by code_simp+
  have c: "candidate_url demo_host ''amlo'' 1 ''jpeg'' = ''amlo/1.jpeg''"
    "candidate_url demo_host ''amlo'' 2 ''png'' = ''amlo/2.png''"
    "candidate_url demo_host ''amlo'' 3 ''jpg'' = ''amlo/3.jpg''"
    by code_simp+
  have ne: "''amlo'' \<noteq> []" by simp
  note th = probeImages_first_extensions [of "''amlo''" demo_host "''amlo''" "''amlo''",
      unfolded t r, OF ne d ne e]
  then obtain attempts where
    p: "probeImages demo_host ''amlo'' = Inr (expected_urls demo_host ''amlo'', attempts)" and
    x: "\<forall>e1 e2 e3.
          first_loading_ext demo_host ''amlo'' 1 = Some e1 \<and>
          first_loading_ext demo_host ''amlo'' 2 = Some e2 \<and>
          first_loading_ext demo_host ''amlo'' 3 = Some e3 \<and>
          first_loading_ext demo_host ''amlo'' 4 = None \<longrightarrow>
          expected_urls demo_host ''amlo'' =
            [candidate_url demo_host ''amlo'' 1 e1, candidate_url demo_host ''amlo'' 2 e2,
             candidate_url demo_host ''amlo'' 3 e3]"
    by (elim exE conjE)
  from x f have "expected_urls demo_host ''amlo'' =
            [candidate_url demo_host ''amlo'' 1 ''jpeg'', candidate_url demo_host ''amlo'' 2 ''png'',
             candidate_url demo_host ''amlo'' 3 ''jpg'']"
    by blast
  then have "expected_urls demo_host ''amlo'' = [''amlo/1.jpeg'', ''amlo/2.png'', ''amlo/3.jpg'']"
    by (simp only: c)
  with p have "\<exists>attempts. probeImages demo_host ''amlo'' =
          Inr ([''amlo/1.jpeg'', ''amlo/2.png'', ''amlo/3.jpg''], attempts)"
    by (simp only: exI)
  with d t e f show ?thesis by simp
qed

text \<open>
  As stated, C3 covers every non-empty folder identifier. A folder identifier of white
  space is not empty, yet trims to the empty text, and the prober returns nothing for it
  without a load, whatever images would load.
\<close>

theorem probeImages_blank_folder_counterexample:
  "'' '' \<noteq> [] \<and>
   first_loading_ext always_loads_host [] 1 = Some ''jpeg'' \<and>
   probeImages always_loads_host '' '' = Inr ([], [])"
proof -
  have 1: "first_loading_ext always_loads_host [] 1 = Some ''jpeg''" by code_simp
  have 2: "probeImages always_loads_host '' '' = Inr ([], [])" by code_simp
  from 1 2 show ?thesis by simp
qed

section \<open>The filter and sort pipeline\<close>

text \<open>
  Claim C1. For every catalog and filter state, the list shown after \<open>applyFilters\<close>
  holds exactly the products of the catalog that satisfy the three inclusion predicates:
  the same set, and each product as often as the catalog has it.
\<close>

theorem applyFilters_exact:
  "set (shown (applyFilters h s)) = {p \<in> set (catalog s). satisfies h (filters s) p} \<and>
   mset (shown (applyFilters h s)) = filter_mset (satisfies h (filters s)) (mset (catalog s))"
proof -
  have m: "mset (shown (applyFilters h s)) = filter_mset (satisfies h (filters s)) (mset (catalog s))"
    by (simp add: shown_applyFilters mset_sort_switch filterCallback_iff [abs_def])
  have "set (shown (applyFilters h s)) = set_mset (mset (shown (applyFilters h s)))"
    by simp
  also have "\<dots> = {p \<in> set (catalog s). satisfies h (filters s) p}"
    unfolding m by auto
  finally show ?thesis using m by simp
qed

theorem applyFilters_exact_witness:
  "set (shown (applyFilters demo_host (demo_page 8 ''price-low''))) = {zinc} \<and>
   satisfies demo_host (filters (demo_page 8 ''price-low'')) zinc \<and>
   \<not> satisfies demo_host (filters (demo_page 8 ''price-low'')) amlo"
proof -
  have c: "catalog (demo_page 8 ''price-low'') = [amlo, zinc]"
    by (simp add: catalog_def demo_page_def)
  have z: "satisfies demo_host (filters (demo_page 8 ''price-low'')) zinc"
    by (simp add: satisfies_def demo_page_def zinc_def)
  have a: "\<not> satisfies demo_host (filters (demo_page 8 ''price-low'')) amlo"
    by (simp add: satisfies_def demo_page_def amlo_def)
  from applyFilters_exact [of demo_host "demo_page 8 ''price-low''"] c z a
  show ?thesis by auto
qed

text \<open>
  Claim C2. \<open>applySort\<close> rearranges the shown list (same products, same multiplicities)
  and orders it stably: for \<open>price-low\<close> prices never decrease along the list (so for
  every adjacent pair \<open>a.price \<le> b.price\<close>), for \<open>price-high\<close> they never increase,
  and for \<open>name\<close> and every other sort key the list ascends in the locale's comparison
  of names, given that this comparison is a consistent comparator. Stably: the products
  with one price, or with names the locale holds equal, keep their order.
\<close>

theorem applySort_ordered:
  "mset (shown (applySort h s)) = mset (shown s) \<and>
   (sortBy (filters s) = ''price-low'' \<longrightarrow>
      sorted_wrt (\<lambda>a b. price a \<le> price b) (shown (applySort h s)) \<and>
      (\<forall>k. filter (\<lambda>p. price p = k) (shown (applySort h s)) =
           filter (\<lambda>p. price p = k) (shown s))) \<and>
   (sortBy (filters s) = ''price-high'' \<longrightarrow>
      sorted_wrt (\<lambda>a b. price a \<ge> price b) (shown (applySort h s)) \<and>
      (\<forall>k. filter (\<lambda>p. price p = k) (shown (applySort h s)) =
           filter (\<lambda>p. price p = k) (shown s))) \<and>
   (sortBy (filters s) \<noteq> ''price-low'' \<and> sortBy (filters s) \<noteq> ''price-high'' \<and>
    consistent_comparator (localeCompare h) \<longrightarrow>
      sorted_wrt (\<lambda>a b. localeCompare h (name a) (name b) \<le> 0) (shown (applySort h s)) \<and>
      (\<forall>k. filter (\<lambda>p. localeCompare h (name p) k = 0) (shown (applySort h s)) =
           filter (\<lambda>p. localeCompare h (name p) k = 0) (shown s)))"
proof (intro conjI impI allI)
  show "mset (shown (applySort h s)) = mset (shown s)"
    by (simp add: shown_applySort mset_sort_switch)
next
  assume "sortBy (filters s) = ''price-low''"
  then show "sorted_wrt (\<lambda>a b. price a \<le> price b) (shown (applySort h s))"
    by (simp add: shown_applySort sort_switch_def sorted_price_low)
next
  fix k
  assume "sortBy (filters s) = ''price-low''"
  then show "filter (\<lambda>p. price p = k) (shown (applySort h s)) = filter (\<lambda>p. price p = k) (shown s)"
    by (simp add: shown_applySort sort_switch_def stable_price_low)
next
  assume "sortBy (filters s) = ''price-high''"
  then show "sorted_wrt (\<lambda>a b. price a \<ge> price b) (shown (applySort h s))"
    by (simp add: shown_applySort sort_switch_def sorted_price_high)
next
  fix k
  assume "sortBy (filters s) = ''price-high''"
  then show "filter (\<lambda>p. price p = k) (shown (applySort h s)) = filter (\<lambda>p. price p = k) (shown s)"
    by (simp add: shown_applySort sort_switch_def stable_price_high)
next
  assume "sortBy (filters s) \<noteq> ''price-low'' \<and> sortBy (filters s) \<noteq> ''price-high'' \<and>
          consistent_comparator (localeCompare h)"
  then show "sorted_wrt (\<lambda>a b. localeCompare h (name a) (name b) \<le> 0) (shown (applySort h s))"
    by (simp add: shown_applySort sort_switch_def sorted_by_name)
next
  fix k
  assume "sortBy (filters s) \<noteq> ''price-low'' \<and> sortBy (filters s) \<noteq> ''price-high'' \<and>
          consistent_comparator (localeCompare h)"
  then show "filter (\<lambda>p. localeCompare h (name p) k = 0) (shown (applySort h s)) =
             filter (\<lambda>p. localeCompare h (name p) k = 0) (shown s)"
    by (simp add: shown_applySort sort_switch_def stable_by_name)
qed

theorem applySort_ordered_witness:
  "shown (applySort demo_host (demo_page 100 ''price-low'')) = [zinc, amlo] \<and>
   sorted_wrt (\<lambda>a b. price a \<le> price b) (shown (applySort demo_host (demo_page 100 ''price-low''))) \<and>
   shown (applySort demo_host (demo_page 100 ''price-high'')) = [amlo, zinc] \<and>
   sorted_wrt (\<lambda>a b. price a \<ge> price b) (shown (applySort demo_host (demo_page 100 ''price-high''))) \<and>
   consistent_comparator (localeCompare demo_host) \<and>
   shown (applySort demo_host (demo_page 100 ''relevance'')) = [amlo, zinc] \<and>
   sorted_wrt (\<lambda>a b. localeCompare demo_host (name a) (name b) \<le> 0)
     (shown (applySort demo_host (demo_page 100 ''relevance'')))"
proof -
  have k: "sortBy (filters (demo_page 100 key)) = key" for key
    by (simp add: demo_page_def)
  have 1: "shown (applySort demo_host (demo_page 100 ''price-low'')) = [zinc, amlo]"
    by code_simp
  have 2: "shown (applySort demo_host (demo_page 100 ''price-high'')) = [amlo, zinc]"
    by code_simp
  have 3: "shown (applySort demo_host (demo_page 100 ''relevance'')) = [amlo, zinc]"
    by code_simp
  have n: "''relevance'' \<noteq> ''price-low'' \<and> ''relevance'' \<noteq> ''price-high''"
    by simp
  from applySort_ordered [of demo_host "demo_page 100 ''price-low''"]
       applySort_ordered [of demo_host "demo_page 100 ''price-high''"]
       applySort_ordered [of demo_host "demo_page 100 ''relevance''"]
       demo_host_consistent k n 1 2 3
  show ?thesis by (simp only: simp_thms)
qed

text \<open>
  Claim C4. Filtering and sorting leave the catalog as it was: after \<open>applyFilters\<close>,
  and after \<open>applySort\<close> alone, \<open>allProducts\<close> refers to the same array with the same
  elements in the same order, and no array that existed before has changed.
\<close>

theorem applyFilters_frame:
  assumes "allProducts s < fresh s"
  shows "allProducts (applyFilters h s) = allProducts s \<and>
         catalog (applyFilters h s) = catalog s \<and>
         allProducts (applySort h s) = allProducts s \<and>
         catalog (applySort h s) = catalog s \<and>
         (\<forall>a < fresh s. arrays (applyFilters h s) a = arrays s a)"
  using assms frame_applyFilters [of h s] frame_applySort [of h s]
  by (simp add: catalog_def)

theorem applyFilters_frame_witness:
  "allProducts (demo_page 8 ''price-low'') < fresh (demo_page 8 ''price-low'') \<and>
   catalog (demo_page 8 ''price-low'') = [amlo, zinc] \<and>
   shown (applyFilters demo_host (demo_page 8 ''price-low'')) = [zinc] \<and>
   catalog (applyFilters demo_host (demo_page 8 ''price-low'')) = [amlo, zinc]"
proof -
  have a: "allProducts (demo_page 8 ''price-low'') < fresh (demo_page 8 ''price-low'')"
    by (simp add: demo_page_def)
  have c: "catalog (demo_page 8 ''price-low'') = [amlo, zinc]"
    by (simp add: catalog_def demo_page_def)
  have s: "shown (applyFilters demo_host (demo_page 8 ''price-low'')) = [zinc]"
    by code_simp
  from applyFilters_frame [OF a, of demo_host] a c s show ?thesis by simp
qed

text \<open>
  Claim C5. The pipeline is idempotent: a second \<open>applyFilters\<close> with the filter state
  unchanged shows the same list in the same order; and so does the pipeline run with the
  same filter state on a catalog that is the list it showed (given a consistent locale
  comparison).
\<close>

theorem applyFilters_idempotent:
  "(allProducts s < fresh s \<longrightarrow>
      shown (applyFilters h (applyFilters h s)) = shown (applyFilters h s)) \<and>
   (consistent_comparator (localeCompare h) \<and> filters t = filters s \<and>
    catalog t = shown (applyFilters h s) \<longrightarrow>
      shown (applyFilters h t) = shown (applyFilters h s))"
proof (intro conjI impI)
  assume a: "allProducts s < fresh s"
  have "catalog (applyFilters h s) = catalog s"
    using a frame_applyFilters [of h s] by (simp add: catalog_def)
  moreover have "filters (applyFilters h s) = filters s"
    using frame_applyFilters [of h s] by simp
  ultimately show "shown (applyFilters h (applyFilters h s)) = shown (applyFilters h s)"
    by (simp add: shown_applyFilters)
next
  assume b: "consistent_comparator (localeCompare h) \<and> filters t = filters s \<and>
             catalog t = shown (applyFilters h s)"
  then have "shown (applyFilters h t) =
             sort_switch h (sortBy (filters s))
               (filter (filterCallback h (filters s))
                 (sort_switch h (sortBy (filters s))
                   (filter (filterCallback h (filters s)) (catalog s))))"
    by (simp add: shown_applyFilters)
  also have "\<dots> = sort_switch h (sortBy (filters s))
                     (sort_switch h (sortBy (filters s))
                       (filter (filterCallback h (filters s)) (catalog s)))"
    by (simp only: filter_sort_switch_filter)
  also have "\<dots> = shown (applyFilters h s)"
    using b by (simp add: sort_switch_idem shown_applyFilters)
  finally show "shown (applyFilters h t) = shown (applyFilters h s)" .
qed

theorem applyFilters_idempotent_witness:
  "allProducts (demo_page 100 ''price-low'') < fresh (demo_page 100 ''price-low'') \<and>
   shown (applyFilters demo_host (demo_page 100 ''price-low'')) = [zinc, amlo] \<and>
   shown (applyFilters demo_host (applyFilters demo_host (demo_page 100 ''price-low''))) =
     [zinc, amlo] \<and>
   consistent_comparator (localeCompare demo_host) \<and>
   catalog ((demo_page 100 ''price-low'')\<lparr>arrays := (\<lambda>a. [zinc, amlo])\<rparr>) = [zinc, amlo] \<and>
   shown (applyFilters demo_host ((demo_page 100 ''price-low'')\<lparr>arrays := (\<lambda>a. [zinc, amlo])\<rparr>)) =
     [zinc, amlo]"
proof -
  let ?s = "demo_page 100 ''price-low''"
  let ?t = "?s\<lparr>arrays := (\<lambda>a. [zinc, amlo])\<rparr>"
  have a: "allProducts ?s < fresh ?s"
    by (simp add: demo_page_def)
  have s: "shown (applyFilters demo_host ?s) = [zinc, amlo]"
    by code_simp
  have c: "catalog ?t = [zinc, amlo]" and f: "filters ?t = filters ?s"
    by (simp_all add: catalog_def)
  from applyFilters_idempotent [of ?s demo_host ?t] demo_host_consistent a s c f
  show ?thesis by simp
qed

section \<open>The detail page\<close>

text \<open>
  Claim C6, amended. On the detail page, for every query-parameter value: if the
  navigation identifier is missing, or \<open>parseInt\<close> reads no number or zero from it, the page
  shows the \<open>No product specified\<close> message, and for every well-formed integer identifier
  other than 0, of magnitude at most \<open>2^53\<close>, that matches no product of the catalog the
  page shows the \<open>Product not found\<close> message; in both cases \<open>init\<close> returns, with that
  message and no other.
\<close>

theorem detail_init_messages:
  "(idParam = None \<or> (\<exists>v. idParam = Some v \<and> (parseInt v = NaN \<or> parseInt v = Num 0)) \<longrightarrow>
      (\<exists>m'. detail_init h fetch m idParam = Inr (ErrorMessage ''No product specified'', m'))) \<and>
   (\<forall>v ps m'. idParam = Some v \<and> well_formed_integer v \<and> identifier_value v \<noteq> 0 \<and>
      \<bar>identifier_value v\<bar> \<le> 2 ^ 53 \<and> loadProducts h fetch m = Inr (ps, m') \<and>
      (\<forall>p \<in> set (products m'). prod_id p \<noteq> identifier_value v) \<longrightarrow>
      detail_init h fetch m idParam = Inr (ErrorMessage ''Product not found'', m'))"
proof (intro conjI impI allI)
  obtain r m' where l: "loadProducts h fetch m = Inr (r, m')"
    using loadProducts_Inr by blast
  assume "idParam = None \<or> (\<exists>v. idParam = Some v \<and> (parseInt v = NaN \<or> parseInt v = Num 0))"
  then have "\<not> truthy (parseInt (case idParam of None \<Rightarrow> ''null'' | Some v \<Rightarrow> v))"
    by (auto simp: parseInt_null truthy_def)
  with l show "\<exists>m'. detail_init h fetch m idParam = Inr (ErrorMessage ''No product specified'', m')"
    by (simp add: detail_init_def)
next
  fix v ps m'
  assume a: "idParam = Some v \<and> well_formed_integer v \<and> identifier_value v \<noteq> 0 \<and>
      \<bar>identifier_value v\<bar> \<le> 2 ^ 53 \<and> loadProducts h fetch m = Inr (ps, m') \<and>
      (\<forall>p \<in> set (products m'). prod_id p \<noteq> identifier_value v)"
  then have p: "parseInt v = Num (identifier_value v)" by (simp add: parseInt_well_formed)
  from a have "getById h m' (Num (identifier_value v)) = None" by (simp add: getById_None)
  with a p show "detail_init h fetch m idParam = Inr (ErrorMessage ''Product not found'', m')"
    by (simp add: detail_init_def truthy_def)
qed

theorem detail_init_messages_witness:
  "parseInt ''abc'' = NaN \<and>
   (\<exists>m'. detail_init demo_host demo_fetch demo_manager (Some ''abc'') =
     Inr (ErrorMessage ''No product specified'', m')) \<and>
   well_formed_integer ''7'' \<and> identifier_value ''7'' = 7 \<and> \<bar>7 :: int\<bar> \<le> 2 ^ 53 \<and>
   loadProducts demo_host demo_fetch demo_manager =
     Inr ([amlo, zinc], \<lparr>products = [amlo, zinc], console = [LogLoaded 2]\<rparr>) \<and>
   prod_id amlo \<noteq> 7 \<and> prod_id zinc \<noteq> 7 \<and>
   detail_init demo_host demo_fetch demo_manager (Some ''7'') =
     Inr (ErrorMessage ''Product not found'', \<lparr>products = [amlo, zinc], console = [LogLoaded 2]\<rparr>)"
proof -
  let ?m = "\<lparr>products = [amlo, zinc], console = [LogLoaded 2]\<rparr>"
  have l: "loadProducts demo_host demo_fetch demo_manager = Inr ([amlo, zinc], ?m)"
    by (simp add: loadProducts_def loadProducts_try_def productsPath_def demo_host_def
        demo_fetch_def demo_manager_def)
  have p1: "parseInt ''abc'' = NaN"
    by (simp add: parseInt_eval)
  have w: "well_formed_integer ''7''"
    by (simp add: well_formed_integer_def is_decimal_def digitValue_def)
  have v: "identifier_value ''7'' = 7"
    by (simp add: identifier_value_def decimal_value_def digitValue_def)
  have ids: "prod_id amlo \<noteq> 7 \<and> prod_id zinc \<noteq> 7"
    by (simp add: amlo_def zinc_def)
  have a: "\<exists>m'. detail_init demo_host demo_fetch demo_manager (Some ''abc'') =
             Inr (ErrorMessage ''No product specified'', m')"
    using detail_init_messages [of "Some ''abc''" demo_host demo_fetch demo_manager] p1 by simp
  have b: "detail_init demo_host demo_fetch demo_manager (Some ''7'') =
             Inr (ErrorMessage ''Product not found'', ?m)"
    using detail_init_messages [of "Some ''7''" demo_host demo_fetch demo_manager] w v l ids
    by simp
  from a b p1 w v l ids show ?thesis by simp
qed

text \<open>
  As stated, C6 fails in three ways. The identifier \<open>0\<close> is a well-formed integer that no
  product has, but \<open>if (productId)\<close> takes it for a missing one. The identifier \<open>12abc\<close> is
  not a well-formed integer, but \<open>parseInt\<close> reads 12 from it, and the page answers
  \<open>Product not found\<close>. The identifier \<open>9007199254740993\<close> is a well-formed integer that
  no product of the catalog has, but \<open>parseInt\<close> rounds it to the double \<open>2^53\<close>, and the
  page displays the product with that id.
\<close>

theorem detail_init_counterexample:
  "well_formed_integer ''0'' \<and> identifier_value ''0'' = 0 \<and>
   prod_id amlo \<noteq> 0 \<and> prod_id zinc \<noteq> 0 \<and>
   loadProducts demo_host demo_fetch demo_manager =
     Inr ([amlo, zinc], \<lparr>products = [amlo, zinc], console = [LogLoaded 2]\<rparr>) \<and>
   message_shown (detail_init demo_host demo_fetch demo_manager (Some ''0'')) =
     Some ''No product specified'' \<and>
   \<not> well_formed_integer ''12abc'' \<and>
   message_shown (detail_init demo_host demo_fetch demo_manager (Some ''12abc'')) =
     Some ''Product not found'' \<and>
   well_formed_integer ''9007199254740993'' \<and>
   identifier_value ''9007199254740993'' = 9007199254740993 \<and>
   loadProducts demo_host large_fetch demo_manager =
     Inr ([vial], \<lparr>products = [vial], console = [LogLoaded 1]\<rparr>) \<and>
   prod_id vial \<noteq> 9007199254740993 \<and>
   message_shown (detail_init demo_host large_fetch demo_manager (Some ''9007199254740993'')) = None \<and>
   product_displayed (detail_init demo_host large_fetch demo_manager (Some ''9007199254740993'')) =
     Some vial"
proof -
  let ?m = "\<lparr>products = [amlo, zinc], console = [LogLoaded 2]\<rparr>"
  let ?m' = "\<lparr>products = [vial], console = [LogLoaded 1]\<rparr>"
  have l: "loadProducts demo_host demo_fetch demo_manager = Inr ([amlo, zinc], ?m)"
    by (simp add: loadProducts_def loadProducts_try_def productsPath_def demo_host_def
        demo_fetch_def demo_manager_def)
  have l': "loadProducts demo_host large_fetch demo_manager = Inr ([vial], ?m')"
    by (simp add: loadProducts_def loadProducts_try_def productsPath_def demo_host_def
        large_fetch_def demo_manager_def)
  have w0: "well_formed_integer ''0'' \<and> identifier_value ''0'' = 0"
    by (simp add: well_formed_integer_def is_decimal_def identifier_value_def decimal_value_def
        digitValue_def)
  have p0: "parseInt ''0'' = Num 0"
    by (simp add: parseInt_eval)
  have ids: "prod_id amlo \<noteq> 0 \<and> prod_id zinc \<noteq> 0"
    by (simp add: amlo_def zinc_def)
  have d0: "message_shown (detail_init demo_host demo_fetch demo_manager (Some ''0'')) =
              Some ''No product specified''"
    by (simp add: detail_init_def l p0 truthy_def message_shown_def)
  have w1: "\<not> well_formed_integer ''12abc''"
    by (simp add: well_formed_integer_def is_decimal_def digitValue_def)
  have p1: "parseInt ''12abc'' = Num 12"
    by (simp add: parseInt_eval)
  have g1: "getById demo_host ?m (Num 12) = None"
    by (simp add: getById_None amlo_def zinc_def)
  have d1: "message_shown (detail_init demo_host demo_fetch demo_manager (Some ''12abc'')) =
              Some ''Product not found''"
    using g1 by (simp add: detail_init_def l p1 truthy_def message_shown_def)
  have w2: "well_formed_integer ''9007199254740993'' \<and>
            identifier_value ''9007199254740993'' = 9007199254740993"
    by (simp add: well_formed_integer_def is_decimal_def identifier_value_def decimal_value_def
        digitValue_def)
  have p2: "parseInt ''9007199254740993'' = Num 9007199254740992"
    by (simp add: parseInt_eval)
  have "parseInt (toString demo_host (Num 9007199254740992)) = Num 9007199254740992"
    by (rule parseInt_toString) simp
  then have g2: "getById demo_host ?m' (Num 9007199254740992) = Some vial"
    by (simp add: getById_def vial_def)
  obtain d where d: "detailHTML demo_host vial = Inr d"
    using detailHTML_demo by blast
  obtain r where r: "displayRelatedProducts demo_host [vial] vial = Inr r"
    using displayRelatedProducts_demo by blast
  have d2: "detail_init demo_host large_fetch demo_manager (Some ''9007199254740993'') =
              Inr (DisplayProduct vial d r (pageTitle vial), ?m')"
    using g2 d r by (simp add: detail_init_def l' p2 truthy_def)
  have i2: "prod_id vial \<noteq> 9007199254740993"
    by (simp add: vial_def)
  from d2 have s2: "message_shown (detail_init demo_host large_fetch demo_manager
                      (Some ''9007199254740993'')) = None"
    by (simp add: message_shown_def)
  from d2 have s3: "product_displayed (detail_init demo_host large_fetch demo_manager
                      (Some ''9007199254740993'')) = Some vial"
    by (simp add: product_displayed_def)
  from w0 ids l d0 w1 d1 w2 l' i2 s2 s3 show ?thesis by simp
qed

section \<open>The carousel renderer\<close>




section \<open>Escaped product text\<close>

text \<open>
  What \<open>escapeHtml\<close> returns holds no markup character and every \<open>&\<close> in it starts an
  entity (\<open>escapeHtml_no_markup\<close>, \<open>amp_ok_escapeHtml\<close>), and each of the four templates
  holds the name and the description of its product as \<open>escapeHtml\<close> gives them
  (\<open>embeds_createProductCard\<close> and the three lemmas after it).
\<close>

text \<open>
  Claim C10. Product text cannot inject markup into the HTML of a card or of the detail
  page, since what is embedded passes through \<open>escapeHtml\<close> first. The card of the home
  page, \<open>UIManager.createProductCard\<close>, breaks this: it embeds the category as it is,
  where the card of the listing page, the detail HTML and the card of a related product
  escape it. For the product whose category is the text \<open><img src=x onerror=alert(1)>\<close>,
  the card of the home page holds that element, and the three others hold its escaped
  text and no \<open><img\<close>.
\<close>

theorem UIManager_createProductCard_category_unescaped:
  \<open>category tainted = ''<img src=x onerror=alert(1)>'' \<and>
   html_includes (UIManager_createProductCard demo_host tainted)
     ''<span class="product-category"><img src=x onerror=alert(1)></span>'' \<and>
   html_includes (createProductCard demo_host tainted)
     ''<span class="product-category">&lt;img src=x onerror=alert(1)&gt;</span>'' \<and>
   \<not> html_includes (createProductCard demo_host tainted) ''<img'' \<and>
   html_includes (relatedProductCard demo_host tainted)
     ''<span class="product-category">&lt;img src=x onerror=alert(1)&gt;</span>'' \<and>
   \<not> html_includes (relatedProductCard demo_host tainted) ''<img'' \<and>
   html_includes (detailHTML demo_host tainted)
     ''<span class="meta-value" style="text-transform: capitalize;">&lt;img src=x onerror=alert(1)&gt;</span>'' \<and>
   \<not> html_includes (detailHTML demo_host tainted) ''<img''\<close>
proof -
  note f = tainted_texts(1)
  have c: "category tainted = ''<img src=x onerror=alert(1)>''"
    by (simp add: tainted_def)
  have u: \<open>html_includes (UIManager_createProductCard demo_host tainted)
     ''<span class="product-category"><img src=x onerror=alert(1)></span>''\<close>
    using UIManager_createProductCard_category [OF f] by (simp add: tainted_texts)
  have l: \<open>html_includes (createProductCard demo_host tainted)
       ''<span class="product-category">&lt;img src=x onerror=alert(1)&gt;</span>''\<close>
    using createProductCard_category [OF f] by (simp add: tainted_texts)
  have r: \<open>html_includes (relatedProductCard demo_host tainted)
       ''<span class="product-category">&lt;img src=x onerror=alert(1)&gt;</span>''\<close>
    using relatedProductCard_category [OF f] by (simp add: tainted_texts)
  have d: \<open>html_includes (detailHTML demo_host tainted)
       ''<span class="meta-value" style="text-transform: capitalize;">&lt;img src=x onerror=alert(1)&gt;</span>''\<close>
    using detailHTML_category [OF f] by (simp add: tainted_texts)
  have l': \<open>\<not> html_includes (createProductCard demo_host tainted) ''<img''\<close>
    unfolding createProductCard_def tainted_texts(2) by code_simp
  have r': \<open>\<not> html_includes (relatedProductCard demo_host tainted) ''<img''\<close>
    unfolding relatedProductCard_def tainted_texts(2) by code_simp
  have d': \<open>\<not> html_includes (detailHTML demo_host tainted) ''<img''\<close>
    unfolding detailHTML_def by code_simp
  from c u l l' r r' d d' show ?thesis by (intro conjI)
qed

end
